theory Spec2Isabelle
  imports
    Complex_Main
    "HOL-Library.AList"
    "HOL-Library.Char_ord"
    "HOL-Library.List_Lexorder"
    "HOL-Library.Multiset"
    "HOL-Library.Word"
begin

section \<open>Data model\<close>

text \<open>
  The gateway stores protobuf metric families (package \<open>dto\<close>) in Go maps.  A Go map is
  modelled as an association list with pairwise distinct keys: \<open>map_of\<close> is the lookup,
  \<open>AList.update\<close> the assignment \<open>m[k] = v\<close>, \<open>AList.delete\<close> the builtin \<open>delete\<close>,
  and the order of the list stands for one of the iteration orders that \<open>range\<close> may
  take.  A Go string is a sequence of bytes, compared bytewise by \<open><\<close>, which is the
  lexicographic order of \<open>char list\<close>.

  A \<open>float64\<close> is modelled as a real number: rounding, infinities and NaN are outside
  the model.  A \<open>uint64\<close> is a 64-bit word, whose addition wraps as Go's does.  The
  optional scalar fields of the protobuf messages (names, types, values) are taken as
  set; the optional sub-messages of a metric and its timestamp keep their pointer
  nature as \<open>option\<close>, and dereferencing an absent one is a panic of the model.
\<close>

datatype MetricType = COUNTER | GAUGE | SUMMARY | UNTYPED | HISTOGRAM

record LabelPair =
  lp_Name :: string
  lp_Value :: string

record Bucket =
  b_CumulativeCount :: "64 word"
  b_UpperBound :: real

record Histogram =
  h_SampleCount :: "64 word"
  h_SampleSum :: real
  h_Bucket :: "Bucket list"

record Quantile =
  q_Quantile :: real
  q_Value :: real

record Summary =
  s_SampleCount :: "64 word"
  s_SampleSum :: real
  s_Quantile :: "Quantile list"

record Metric =
  m_Label :: "LabelPair list"
  m_Gauge :: "real option"
  m_Counter :: "real option"
  m_Summary :: "Summary option"
  m_Untyped :: "real option"
  m_Histogram :: "Histogram option"
  m_TimestampMs :: "64 word option"

record MetricFamily =
  mf_Name :: string
  mf_Help :: string
  mf_Type :: MetricType
  mf_Metric :: "Metric list"

type_synonym labels = "(string \<times> string) list"

type_synonym families = "(string \<times> MetricFamily) list"

record MetricGroup =
  g_Labels :: labels
  g_MetricFamilies :: families

text \<open>A channel is known by its identity; \<open>wr_Done = None\<close> is the nil channel, and
  \<open>wr_MetricFamilies = None\<close> is the nil map of a delete request.\<close>

type_synonym chan = nat

record WriteRequest =
  wr_Labels :: labels
  wr_Timestamp :: nat
  wr_MetricFamilies :: "families option"
  wr_Replace :: bool
  wr_Done :: "chan option"

text \<open>Of a \<open>MetricStorage\<close> the model keeps the map of groups; the lock and the queue
  are the worker's, see \<open>loop\<close> below.\<close>

type_synonym MetricStorage = "(string \<times> MetricGroup) list"

datatype error = TypeConflict | TimestampForbidden | InconsistentOnGather

section \<open>Label utilities\<close>

definition lookup :: "labels \<Rightarrow> string \<Rightarrow> string" where
  \<comment> \<open>\<open>labels[name]\<close>: the empty string for a missing key\<close>
  "lookup labels name = (case map_of labels name of Some v \<Rightarrow> v | None \<Rightarrow> [])"

text \<open>
  \<open>GroupingKeyFor\<close>.  The separator \<open>model.SeparatorByte\<close> is a constant of the imported
  package \<open>prometheus/common/model\<close>, which declares it as the byte 255 (a byte that
  no valid UTF-8 string holds).  Every function that builds a key takes the separator as
  its parameter \<open>sep\<close>, so that what does not depend on its value is proved for every
  byte; the program calls them with \<open>SeparatorByte\<close>.  \<open>writeLabels\<close> is the loop over
  the sorted names with its index \<open>i\<close> and the string builder \<open>sb\<close>.
\<close>

definition SeparatorByte :: char where
  "SeparatorByte = CHR 0xFF"

fun writeLabels :: "char \<Rightarrow> labels \<Rightarrow> nat \<Rightarrow> string list \<Rightarrow> string \<Rightarrow> string" where
  "writeLabels sep labels i [] sb = sb"
| "writeLabels sep labels i (labelName # rest) sb =
     (let sb1 = sb @ labelName;
          sb2 = sb1 @ [sep];
          sb3 = sb2 @ lookup labels labelName;
          sb4 = (if i + 1 < length labels then sb3 @ [sep] else sb3)
      in writeLabels sep labels (i + 1) rest sb4)"

definition GroupingKeyFor :: "char \<Rightarrow> labels \<Rightarrow> string" where
  "GroupingKeyFor sep labels =
     (if length labels = 0 then []
      else writeLabels sep labels 0 (sort (map fst labels)) [])"

definition GroupingKeyForLabelPair :: "char \<Rightarrow> LabelPair list \<Rightarrow> string" where
  "GroupingKeyForLabelPair sep lps =
     GroupingKeyFor sep (foldl (\<lambda>m label. AList.update (lp_Name label) (lp_Value label) m) [] lps)"

text \<open>The grouping key as the specification words it: the names sorted, each followed by
  its value, the pieces joined by the separator with none at the end.\<close>

fun join_sep :: "char \<Rightarrow> string list \<Rightarrow> string" where
  "join_sep sep [] = []"
| "join_sep sep [x] = x"
| "join_sep sep (x # y # ys) = x @ [sep] @ join_sep sep (y # ys)"

definition spec_grouping_key :: "char \<Rightarrow> labels \<Rightarrow> string" where
  "spec_grouping_key sep L =
     join_sep sep (concat (map (\<lambda>n. [n, lookup L n]) (sort (map fst L))))"

section \<open>Metric-family utilities\<close>

text \<open>\<open>model.InstanceLabel\<close>, a constant of the imported package; the repository's test
  \<open>TestSanitizeLabels\<close> reads it back as \<open>instance\<close>.\<close>

definition InstanceLabel :: string where
  "InstanceLabel = ''instance''"

text \<open>
  \<open>SanitizeLabels\<close>, one loop of the source per function.  \<open>refill\<close> copies the grouping
  labels into \<open>gLabelsNotYetDone\<close>.  \<open>scanLabels\<close> is the loop over the metric's label
  pairs: it overwrites a pair whose name is still in the map, and leaves the loop
  (\<open>continue metric\<close>, the last component of its result) as soon as the map is empty
  and the instance label was seen.  \<open>appendMissing\<close> is the loop that appends what is
  left in the map, deleting as it goes.  \<open>sort.Sort\<close> on the label pairs is \<open>sort_key\<close>
  on their names: Go's sort is not stable, so the model picks the stable one among the
  results it may give; they coincide when the names of a metric are pairwise distinct.
\<close>

definition refill :: "labels \<Rightarrow> labels \<Rightarrow> labels" where
  "refill groupingLabels gLabelsNotYetDone =
     foldl (\<lambda>m (lname, lvalue). AList.update lname lvalue m) gLabelsNotYetDone groupingLabels"

fun scanLabels ::
  "labels \<Rightarrow> bool \<Rightarrow> LabelPair list \<Rightarrow> LabelPair list \<Rightarrow> labels \<times> bool \<times> LabelPair list \<times> bool" where
  "scanLabels nyd hasInstanceLabel seen [] = (nyd, hasInstanceLabel, seen, False)"
| "scanLabels nyd hasInstanceLabel seen (lp # rest) =
     (let lname = lp_Name lp;
          lp' = (case map_of nyd lname of Some lvalue \<Rightarrow> lp\<lparr>lp_Value := lvalue\<rparr> | None \<Rightarrow> lp);
          nyd' = (case map_of nyd lname of Some lvalue \<Rightarrow> AList.delete lname nyd | None \<Rightarrow> nyd);
          has' = (if lname = InstanceLabel then True else hasInstanceLabel)
      in if length nyd' = 0 \<and> has' then (nyd', has', seen @ lp' # rest, True)
         else scanLabels nyd' has' (seen @ [lp']) rest)"

fun appendMissing :: "labels \<Rightarrow> bool \<Rightarrow> LabelPair list \<Rightarrow> labels \<times> bool \<times> LabelPair list" where
  "appendMissing [] hasInstanceLabel ls = ([], hasInstanceLabel, ls)"
| "appendMissing ((lname, lvalue) # rest) hasInstanceLabel ls =
     appendMissing rest (if lname = InstanceLabel then True else hasInstanceLabel)
       (ls @ [\<lparr>lp_Name = lname, lp_Value = lvalue\<rparr>])"

definition sanitizeMetric :: "labels \<Rightarrow> labels \<Rightarrow> Metric \<Rightarrow> labels \<times> Metric" where
  "sanitizeMetric groupingLabels gLabelsNotYetDone m =
     (case scanLabels (refill groupingLabels gLabelsNotYetDone) False [] (m_Label m) of
        (nyd, has, ls, continue) \<Rightarrow>
          if continue then (nyd, m\<lparr>m_Label := sort_key lp_Name ls\<rparr>)
          else (case appendMissing nyd has ls of
                  (nyd', has', ls') \<Rightarrow>
                    (nyd', m\<lparr>m_Label := sort_key lp_Name
                       (if \<not> has' then ls' @ [\<lparr>lp_Name = InstanceLabel, lp_Value = []\<rparr>]
                        else ls')\<rparr>)))"

fun sanitizeMetrics :: "labels \<Rightarrow> labels \<Rightarrow> Metric list \<Rightarrow> Metric list" where
  "sanitizeMetrics groupingLabels nyd [] = []"
| "sanitizeMetrics groupingLabels nyd (m # ms) =
     (case sanitizeMetric groupingLabels nyd m of
        (nyd', m') \<Rightarrow> m' # sanitizeMetrics groupingLabels nyd' ms)"

definition SanitizeLabels :: "MetricFamily \<Rightarrow> labels \<Rightarrow> MetricFamily" where
  "SanitizeLabels mf groupingLabels =
     mf\<lparr>mf_Metric := sanitizeMetrics groupingLabels [] (mf_Metric mf)\<rparr>"

definition TimestampsPresent :: "families \<Rightarrow> bool" where
  "TimestampsPresent metricFamilies =
     list_ex (\<lambda>(name, mf). list_ex (\<lambda>m. m_TimestampMs m \<noteq> None) (mf_Metric mf)) metricFamilies"

section \<open>Merge engine\<close>

text \<open>
  \<open>mergeBuckets\<close>.  The map \<open>mm\<close> of the source sends an upper bound to a pointer to a
  bucket of \<open>b1\<close>; a pointer is the position of that bucket in \<open>b1\<close>, which \<open>append\<close> does
  not move.  \<open>indexBuckets\<close> is the loop that fills \<open>mm\<close>, \<open>mergeBucketsLoop\<close> the loop
  over \<open>b2\<close>.  The two slices are taken to hold buckets of their own (no bucket object
  occurs twice), as the parsers produce them.
\<close>

fun indexBuckets :: "(real \<times> nat) list \<Rightarrow> nat \<Rightarrow> Bucket list \<Rightarrow> (real \<times> nat) list" where
  "indexBuckets mm i [] = mm"
| "indexBuckets mm i (bucket # rest) =
     indexBuckets (AList.update (b_UpperBound bucket) i mm) (i + 1) rest"

fun mergeBucketsLoop :: "(real \<times> nat) list \<Rightarrow> Bucket list \<Rightarrow> Bucket list \<Rightarrow> Bucket list" where
  "mergeBucketsLoop mm b1 [] = b1"
| "mergeBucketsLoop mm b1 (b2Bucket # rest) =
     (case map_of mm (b_UpperBound b2Bucket) of
        None \<Rightarrow> mergeBucketsLoop mm (b1 @ [b2Bucket]) rest
      | Some i \<Rightarrow>
          mergeBucketsLoop mm
            (b1[i := (b1 ! i)\<lparr>b_CumulativeCount :=
                        b_CumulativeCount (b1 ! i) + b_CumulativeCount b2Bucket\<rparr>])
            rest)"

definition mergeBuckets :: "Bucket list \<Rightarrow> Bucket list \<Rightarrow> Bucket list" where
  "mergeBuckets b1 b2 = mergeBucketsLoop (indexBuckets [] 0 b1) b1 b2"

text \<open>\<open>mergeMetrics\<close> returns the updated \<open>m1\<close>; \<open>None\<close> is the nil-pointer panic of a
  metric that lacks the sub-message of the family's type.\<close>

fun mergeMetrics :: "MetricType \<Rightarrow> Metric \<Rightarrow> Metric \<Rightarrow> Metric option" where
  "mergeMetrics COUNTER m1 m2 =
     (case (m_Counter m1, m_Counter m2) of
        (Some v1, Some v2) \<Rightarrow> Some (m1\<lparr>m_Counter := Some (v1 + v2)\<rparr>)
      | _ \<Rightarrow> None)"
| "mergeMetrics GAUGE m1 m2 =
     (case (m_Gauge m1, m_Gauge m2) of
        (Some v1, Some v2) \<Rightarrow> Some (m1\<lparr>m_Gauge := Some v2\<rparr>)
      | _ \<Rightarrow> None)"
| "mergeMetrics HISTOGRAM m1 m2 =
     (case (m_Histogram m1, m_Histogram m2) of
        (Some hist1, Some hist2) \<Rightarrow>
          Some (m1\<lparr>m_Histogram := Some
            \<lparr>h_SampleCount = h_SampleCount hist1 + h_SampleCount hist2,
             h_SampleSum = h_SampleSum hist1 + h_SampleSum hist2,
             h_Bucket = mergeBuckets (h_Bucket hist1) (h_Bucket hist2)\<rparr>\<rparr>)
      | _ \<Rightarrow> None)"
| "mergeMetrics SUMMARY m1 m2 =
     (case (m_Summary m1, m_Summary m2) of
        (Some s1, Some s2) \<Rightarrow> Some (m1\<lparr>m_Summary := Some s2\<rparr>)
      | _ \<Rightarrow> None)"
| "mergeMetrics UNTYPED m1 m2 =
     (case (m_Untyped m1, m_Untyped m2) of
        (Some v1, Some v2) \<Rightarrow> Some (m1\<lparr>m_Untyped := Some v2\<rparr>)
      | _ \<Rightarrow> None)"

text \<open>
  \<open>mergeFamilies\<close>: \<open>indexMetrics\<close> fills the map from a metric's key to its position in
  \<open>f1\<close>, \<open>mergeFamiliesLoop\<close> is the loop over the metrics of \<open>f2\<close>.  The result is the
  returned error with the family \<open>f1\<close> as the call leaves it; \<open>None\<close> is a panic.
\<close>

fun indexMetrics :: "char \<Rightarrow> (string \<times> nat) list \<Rightarrow> nat \<Rightarrow> Metric list \<Rightarrow> (string \<times> nat) list" where
  "indexMetrics sep mm i [] = mm"
| "indexMetrics sep mm i (metric # rest) =
     indexMetrics sep (AList.update (GroupingKeyForLabelPair sep (m_Label metric)) i mm) (i + 1) rest"

fun mergeFamiliesLoop ::
  "char \<Rightarrow> MetricType \<Rightarrow> (string \<times> nat) list \<Rightarrow> Metric list \<Rightarrow> Metric list \<Rightarrow> Metric list option" where
  "mergeFamiliesLoop sep mt mm f1Metric [] = Some f1Metric"
| "mergeFamiliesLoop sep mt mm f1Metric (f2Metric # rest) =
     (case map_of mm (GroupingKeyForLabelPair sep (m_Label f2Metric)) of
        None \<Rightarrow> mergeFamiliesLoop sep mt mm (f1Metric @ [f2Metric]) rest
      | Some i \<Rightarrow>
          (case mergeMetrics mt (f1Metric ! i) f2Metric of
             None \<Rightarrow> None
           | Some m \<Rightarrow> mergeFamiliesLoop sep mt mm (f1Metric[i := m]) rest))"

definition mergeFamilies :: "char \<Rightarrow> MetricFamily \<Rightarrow> MetricFamily \<Rightarrow> (error option \<times> MetricFamily) option" where
  "mergeFamilies sep f1 f2 =
     (if mf_Type f1 \<noteq> mf_Type f2 then Some (Some TypeConflict, f1)
      else (case mergeFamiliesLoop sep (mf_Type f1) (indexMetrics sep [] 0 (mf_Metric f1))
                   (mf_Metric f1) (mf_Metric f2) of
              None \<Rightarrow> None
            | Some ms \<Rightarrow> Some (None, f1\<lparr>mf_Metric := ms\<rparr>)))"

text \<open>\<open>mergeGroups\<close> works on the family map of \<open>g1\<close>, which the group shares with the
  storage; a family that fails to merge is logged and left as it was.\<close>

fun mergeGroups :: "char \<Rightarrow> families \<Rightarrow> families \<Rightarrow> families option" where
  "mergeGroups sep g1 [] = Some g1"
| "mergeGroups sep g1 ((key, g2Family) # rest) =
     (case map_of g1 key of
        None \<Rightarrow> mergeGroups sep (AList.update key g2Family g1) rest
      | Some g1Family \<Rightarrow>
          (case mergeFamilies sep g1Family g2Family of
             None \<Rightarrow> None
           | Some (err, f1) \<Rightarrow> mergeGroups sep (AList.update key f1 g1) rest))"

section \<open>Store, validator and worker\<close>

definition GetMetricFamilies :: "MetricStorage \<Rightarrow> MetricFamily list" where
  "GetMetricFamilies ms = concat (map (\<lambda>(k, group). map snd (g_MetricFamilies group)) ms)"

definition GetMetricGroups :: "MetricStorage \<Rightarrow> MetricStorage" where
  \<comment> \<open>a deep copy: the same value\<close>
  "GetMetricGroups ms = map (\<lambda>(k, g). (k, \<lparr>g_Labels = g_Labels g, g_MetricFamilies = g_MetricFamilies g\<rparr>)) ms"

definition processWriteRequest :: "char \<Rightarrow> MetricStorage \<Rightarrow> WriteRequest \<Rightarrow> MetricStorage option" where
  "processWriteRequest sep ms wr =
     (let groupingKey = GroupingKeyFor sep (wr_Labels wr) in
      case wr_MetricFamilies wr of
        None \<Rightarrow> Some (AList.delete groupingKey ms)
      | Some fams \<Rightarrow>
          (let group = \<lparr>g_Labels = wr_Labels wr, g_MetricFamilies = fams\<rparr> in
           case map_of ms groupingKey of
             None \<Rightarrow> Some (AList.update groupingKey group ms)
           | Some prevGroup \<Rightarrow>
               if wr_Replace wr then Some (AList.update groupingKey group ms)
               else (case mergeGroups sep (g_MetricFamilies prevGroup) fams of
                       None \<Rightarrow> None
                     | Some merged \<Rightarrow>
                         Some (AList.update groupingKey
                                 (prevGroup\<lparr>g_MetricFamilies := merged\<rparr>) ms))))"

text \<open>
  \<open>validateConsistency\<close> returns the error (\<open>None\<close> for nil) and the write request as the
  call leaves it: the families of the request are reached through pointers, so the
  sanitizing is visible to the caller.  \<open>typeConflict\<close> is the pair of loops over the
  request's families and the stored groups.  \<open>prometheus.Gatherers.Gather\<close> belongs to
  an imported library: \<open>gatherOk\<close> stands for "Gather returned no error" on the families
  it is given.  The outer \<open>None\<close> is a panic.
\<close>

definition typeConflict :: "MetricStorage \<Rightarrow> families \<Rightarrow> bool" where
  "typeConflict ms fams =
     list_ex (\<lambda>(n, f2).
       list_ex (\<lambda>(k, group).
         (case map_of (g_MetricFamilies group) (mf_Name f2) of
            Some f1 \<Rightarrow> mf_Type f1 \<noteq> mf_Type f2
          | None \<Rightarrow> False)) ms) fams"

definition validateConsistency ::
  "char \<Rightarrow> (MetricFamily list \<Rightarrow> bool) \<Rightarrow> MetricStorage \<Rightarrow> WriteRequest \<Rightarrow>
     (error option \<times> WriteRequest) option" where
  "validateConsistency sep gatherOk ms wr =
     (case wr_MetricFamilies wr of
        None \<Rightarrow> Some (None, wr)
      | Some fams \<Rightarrow>
          if typeConflict ms fams then Some (Some TypeConflict, wr)
          else if TimestampsPresent fams then Some (Some TimestampForbidden, wr)
          else
            (let wr' = wr\<lparr>wr_MetricFamilies :=
                          Some (map (\<lambda>(n, mf). (n, SanitizeLabels mf (wr_Labels wr))) fams)\<rparr> in
             case wr_Done wr of
               None \<Rightarrow> Some (None, wr')
             | Some done \<Rightarrow>
                 (case processWriteRequest sep (GetMetricGroups ms) wr' of
                    None \<Rightarrow> None
                  | Some testMs \<Rightarrow>
                      if gatherOk (GetMetricFamilies testMs) then Some (None, wr')
                      else Some (Some InconsistentOnGather, wr'))))"

text \<open>
  The worker.  \<open>loop\<close> takes the requests of the queue in order; what it does to the
  channels is recorded as a trace.  A send on a provided channel is taken to go
  through (the handler's channel has room for one value); a send on the nil channel
  blocks for ever, and the worker takes no further request.
\<close>

datatype chan_op = Send chan error | SendOnNil error | Close chan

datatype worker_status = Waiting | BlockedForever | Panicked

record worker =
  w_storage :: MetricStorage
  w_trace :: "chan_op list"
  w_status :: worker_status

definition closeDone :: "WriteRequest \<Rightarrow> chan_op list" where
  "closeDone wr = (case wr_Done wr of Some c \<Rightarrow> [Close c] | None \<Rightarrow> [])"

fun loop ::
  "char \<Rightarrow> (MetricFamily list \<Rightarrow> bool) \<Rightarrow> MetricStorage \<Rightarrow> chan_op list \<Rightarrow> WriteRequest list \<Rightarrow> worker" where
  "loop sep gatherOk ms tr [] = \<lparr>w_storage = ms, w_trace = tr, w_status = Waiting\<rparr>"
| "loop sep gatherOk ms tr (wr # writeQueue) =
     (case validateConsistency sep gatherOk ms wr of
        None \<Rightarrow> \<lparr>w_storage = ms, w_trace = tr, w_status = Panicked\<rparr>
      | Some (None, wr') \<Rightarrow>
          (case processWriteRequest sep ms wr' of
             None \<Rightarrow> \<lparr>w_storage = ms, w_trace = tr, w_status = Panicked\<rparr>
           | Some ms' \<Rightarrow> loop sep gatherOk ms' (tr @ closeDone wr') writeQueue)
      | Some (Some err, wr') \<Rightarrow>
          (case wr_Done wr' of
             None \<Rightarrow> \<lparr>w_storage = ms, w_trace = tr @ [SendOnNil err], w_status = BlockedForever\<rparr>
           | Some c \<Rightarrow> loop sep gatherOk ms (tr @ [Send c err] @ closeDone wr') writeQueue))"

section \<open>HTTP handlers\<close>

text \<open>
  \<open>DecodeBase64\<close> trims the padding and calls \<open>base64.RawURLEncoding.DecodeString\<close> of Go's
  standard library, which is the parameter \<open>decodeString\<close> here (\<open>None\<close> when it returns
  an error).
\<close>

definition TrimRight :: "string \<Rightarrow> char \<Rightarrow> string" where
  "TrimRight s c = rev (dropWhile (\<lambda>x. x = c) (rev s))"

definition DecodeBase64 :: "(string \<Rightarrow> string option) \<Rightarrow> string \<Rightarrow> string option" where
  "DecodeBase64 decodeString s = decodeString (TrimRight s (CHR ''=''))"

definition HasPrefix :: "string \<Rightarrow> string \<Rightarrow> bool" where
  "HasPrefix s p = (take (length p) s = p)"

definition TrimSuffix :: "string \<Rightarrow> string \<Rightarrow> string" where
  "TrimSuffix s suffix =
     (if length suffix \<le> length s \<and> drop (length s - length suffix) s = suffix
      then take (length s - length suffix) s else s)"

fun Split :: "string \<Rightarrow> string list" where
  "Split [] = [[]]"
| "Split (c # cs) =
     (if c = CHR ''/'' then [] # Split cs
      else (case Split cs of x # xs \<Rightarrow> (c # x) # xs | [] \<Rightarrow> [[c]]))"

text \<open>Modelled from the spec: \<open>model.LabelNameRE\<close> and \<open>model.ReservedLabelPrefix\<close> of the
  imported package \<open>prometheus/common/model\<close>: names match
  \<open>[a-zA-Z_][a-zA-Z0-9_]*\<close>, and the reserved prefix is the double underscore.\<close>

definition labelStart :: "char \<Rightarrow> bool" where
  "labelStart c = (c = CHR ''_'' \<or> (CHR ''a'' \<le> c \<and> c \<le> CHR ''z'') \<or> (CHR ''A'' \<le> c \<and> c \<le> CHR ''Z''))"

definition LabelNameRE :: "string \<Rightarrow> bool" where
  "LabelNameRE s =
     (case s of [] \<Rightarrow> False
      | c # cs \<Rightarrow> labelStart c \<and> list_all (\<lambda>x. labelStart x \<or> (CHR ''0'' \<le> x \<and> x \<le> CHR ''9'')) cs)"

definition ReservedLabelPrefix :: string where
  "ReservedLabelPrefix = ''__''"

definition Base64JobSuffix :: string where
  "Base64JobSuffix = ''@base64''"

text \<open>\<open>SplitLabels\<close>: \<open>splitLoop\<close> is its loop over the components, two at a time.\<close>

datatype path_error = OddComponents | ImproperLabelName | InvalidBase64

fun splitLoop ::
  "(string \<Rightarrow> string option) \<Rightarrow> string \<Rightarrow> labels \<Rightarrow> string list \<Rightarrow> path_error + labels" where
  "splitLoop decodeString suffix result (name # val # rest) =
     (let trimmedName = TrimSuffix name suffix in
      if \<not> LabelNameRE trimmedName \<or> HasPrefix trimmedName ReservedLabelPrefix
      then Inl ImproperLabelName
      else if trimmedName = name
      then splitLoop decodeString suffix (AList.update name val result) rest
      else (case DecodeBase64 decodeString val of
              None \<Rightarrow> Inl InvalidBase64
            | Some decodedValue \<Rightarrow>
                splitLoop decodeString suffix (AList.update trimmedName decodedValue result) rest))"
| "splitLoop decodeString suffix result [name] = Inr result"
| "splitLoop decodeString suffix result [] = Inr result"

definition SplitLabels ::
  "(string \<Rightarrow> string option) \<Rightarrow> string \<Rightarrow> string \<Rightarrow> path_error + labels" where
  "SplitLabels decodeString labels base64JobSuffix =
     (if length labels \<le> 1 then Inr []
      else
        (let components = Split (if HasPrefix labels ''/'' then drop 1 labels else labels) in
         if length components mod 2 \<noteq> 0 then Inl OddComponents
         else splitLoop decodeString base64JobSuffix [] components))"

text \<open>
  The handlers, up to the request they submit.  \<open>BadRequest\<close> is a response with status
  400 before anything is submitted.  The body parsers are imported libraries: \<open>parsed\<close>
  is what they return (\<open>None\<close> for an error).  In both handlers the decoded job name is
  bound by \<open>:=\<close> inside the \<open>if\<close> statement, to a new variable (\<open>shadowed\<close> here) that
  only the error branch reads; the \<open>job\<close> that the code goes on with is the parameter of
  the route.
\<close>

datatype outcome = BadRequest | Submitted WriteRequest

definition Push ::
  "(string \<Rightarrow> string option) \<Rightarrow> bool \<Rightarrow> bool \<Rightarrow> bool \<Rightarrow> string \<Rightarrow> string \<Rightarrow>
     families option \<Rightarrow> nat \<Rightarrow> chan \<Rightarrow> outcome" where
  "Push decodeString base64 unchecked replace job labelsString parsed now errCh =
     (case (if base64 then DecodeBase64 decodeString job else Some job) of
        None \<Rightarrow> BadRequest
      | Some shadowed \<Rightarrow>
          if job = [] then BadRequest
          else (case SplitLabels decodeString labelsString Base64JobSuffix of
                  Inl err \<Rightarrow> BadRequest
                | Inr labels \<Rightarrow>
                    (case parsed of
                       None \<Rightarrow> BadRequest
                     | Some metricFamilies \<Rightarrow>
                         Submitted
                           \<lparr>wr_Labels = AList.update ''job'' job labels,
                            wr_Timestamp = now,
                            wr_MetricFamilies = Some metricFamilies,
                            wr_Replace = replace,
                            wr_Done = (if unchecked then None else Some errCh)\<rparr>)))"

definition Delete ::
  "(string \<Rightarrow> string option) \<Rightarrow> bool \<Rightarrow> string \<Rightarrow> string \<Rightarrow> nat \<Rightarrow> outcome" where
  "Delete decodeString base64 job labelsString now =
     (case (if base64 then DecodeBase64 decodeString job else Some job) of
        None \<Rightarrow> BadRequest
      | Some shadowed \<Rightarrow>
          if job = [] then BadRequest
          else (case SplitLabels decodeString labelsString Base64JobSuffix of
                  Inl err \<Rightarrow> BadRequest
                | Inr labels \<Rightarrow>
                    Submitted
                      \<lparr>wr_Labels = AList.update ''job'' job labels,
                       wr_Timestamp = now,
                       wr_MetricFamilies = None,
                       wr_Replace = False,
                       wr_Done = None\<rparr>))"

text \<open>A decoder that agrees with URL-safe base64 without padding on the two strings the
  examples use: \<open>dGVzdA\<close> is \<open>test\<close> and \<open>dmFsMA\<close> is \<open>val0\<close>.\<close>

definition exampleDecoder :: "string \<Rightarrow> string option" where
  "exampleDecoder s =
     (if s = ''dGVzdA'' then Some ''test'' else if s = ''dmFsMA'' then Some ''val0'' else None)"

section \<open>Vocabulary of the histogram claim\<close>

text \<open>\<open>countAt bs u\<close> is the cumulative count that the bucket list \<open>bs\<close> gives for the
  upper bound \<open>u\<close>, if it has a bucket with that bound.  \<open>addCount b2 b\<close> is what one
  bucket \<open>b2\<close> of the second histogram does to a bucket \<open>b\<close> of the first.\<close>

definition addCount :: "Bucket \<Rightarrow> Bucket \<Rightarrow> Bucket" where
  "addCount b2 b =
     (if b_UpperBound b2 = b_UpperBound b
      then b\<lparr>b_CumulativeCount := b_CumulativeCount b + b_CumulativeCount b2\<rparr> else b)"

definition countAt :: "Bucket list \<Rightarrow> real \<Rightarrow> 64 word option" where
  "countAt bs u = map_of (map (\<lambda>b. (b_UpperBound b, b_CumulativeCount b)) bs) u"

section \<open>Vocabulary of the sanitizing claim\<close>

text \<open>\<open>sanitized gl ls\<close> is the closed form of what \<open>SanitizeLabels\<close> leaves in a metric
  before it sorts: every label pair of the metric with a grouping label's value written
  over its own, then the grouping labels the metric did not have, then the instance
  label if neither had it.\<close>

definition overwrite :: "labels \<Rightarrow> LabelPair \<Rightarrow> LabelPair" where
  "overwrite gl lp = (case map_of gl (lp_Name lp) of Some v \<Rightarrow> lp\<lparr>lp_Value := v\<rparr> | None \<Rightarrow> lp)"

definition mkPair :: "string \<times> string \<Rightarrow> LabelPair" where
  "mkPair p = \<lparr>lp_Name = fst p, lp_Value = snd p\<rparr>"

definition sanitized :: "labels \<Rightarrow> LabelPair list \<Rightarrow> LabelPair list" where
  "sanitized gl ls =
     map (overwrite gl) ls @
     map mkPair (filter (\<lambda>p. fst p \<notin> lp_Name ` set ls) gl) @
     (if InstanceLabel \<in> lp_Name ` set ls \<or> InstanceLabel \<in> fst ` set gl then []
      else [\<lparr>lp_Name = InstanceLabel, lp_Value = []\<rparr>])"

section \<open>Example inputs\<close>

text \<open>Concrete metrics, requests and stores at which the theorems below are evaluated.\<close>

definition plainMetric :: Metric where
  "plainMetric = \<lparr>m_Label = [], m_Gauge = None, m_Counter = None, m_Summary = None,
     m_Untyped = None, m_Histogram = None, m_TimestampMs = None\<rparr>"

definition fooFamily :: "MetricType \<Rightarrow> Metric \<Rightarrow> MetricFamily" where
  "fooFamily t m = \<lparr>mf_Name = ''foo'', mf_Help = [], mf_Type = t, mf_Metric = [m]\<rparr>"

definition pushFoo :: "MetricType \<Rightarrow> Metric \<Rightarrow> chan option \<Rightarrow> WriteRequest" where
  "pushFoo t m d = \<lparr>wr_Labels = [(''job'', ''t'')], wr_Timestamp = 0,
     wr_MetricFamilies = Some [(''foo'', fooFamily t m)], wr_Replace = False, wr_Done = d\<rparr>"

definition gaugeStore :: MetricStorage where
  "gaugeStore = [(''job'' @ [CHR 0xFF] @ ''t'',
     \<lparr>g_Labels = [(''job'', ''t'')],
      g_MetricFamilies = [(''foo'', fooFamily GAUGE (plainMetric\<lparr>m_Gauge := Some 1\<rparr>))]\<rparr>)]"

definition sanitizedFoo :: "real \<Rightarrow> MetricFamily" where
  "sanitizedFoo v = fooFamily COUNTER (plainMetric\<lparr>m_Label :=
       [\<lparr>lp_Name = ''instance'', lp_Value = []\<rparr>, \<lparr>lp_Name = ''job'', lp_Value = ''t''\<rparr>],
     m_Counter := Some v\<rparr>)"

definition embeddedLabels :: "char \<Rightarrow> labels" where
  "embeddedLabels sep = [(''a'', ''1'' @ [sep] @ ''b'' @ [sep] @ ''2'')]"

definition splitLabels :: labels where
  "splitLabels = [(''a'', ''1''), (''b'', ''2'')]"

definition labelledCounter :: "labels \<Rightarrow> real \<Rightarrow> MetricFamily" where
  "labelledCounter L v = fooFamily COUNTER
     (plainMetric\<lparr>m_Label := map (\<lambda>(n, v). \<lparr>lp_Name = n, lp_Value = v\<rparr>) L, m_Counter := Some v\<rparr>)"

definition pushTo :: "labels \<Rightarrow> real \<Rightarrow> WriteRequest" where
  "pushTo L v = \<lparr>wr_Labels = L, wr_Timestamp = 0,
     wr_MetricFamilies = Some [(''foo'', fooFamily COUNTER (plainMetric\<lparr>m_Counter := Some v\<rparr>))],
     wr_Replace = False, wr_Done = None\<rparr>"

definition histMetric :: "64 word \<Rightarrow> real \<Rightarrow> Bucket list \<Rightarrow> Metric" where
  "histMetric c s bs = plainMetric\<lparr>m_Histogram := Some
     \<lparr>h_SampleCount = c, h_SampleSum = s, h_Bucket = bs\<rparr>\<rparr>"

lemmas ex_defs = plainMetric_def fooFamily_def pushFoo_def gaugeStore_def sanitizedFoo_def

lemmas ex2_defs = embeddedLabels_def splitLabels_def labelledCounter_def pushTo_def

lemmas eval_defs = validateConsistency_def typeConflict_def TimestampsPresent_def
  SanitizeLabels_def sanitizeMetric_def refill_def InstanceLabel_def processWriteRequest_def
  GroupingKeyFor_def GroupingKeyForLabelPair_def lookup_def GetMetricGroups_def
  GetMetricFamilies_def closeDone_def mergeFamilies_def Let_def

section \<open>The grouping key\<close>

lemma writeLabels_join:
  "i + length ns = length L \<Longrightarrow>
   writeLabels sep L i ns sb = sb @ join_sep sep (concat (map (\<lambda>n. [n, lookup L n]) ns))"
proof (induction ns arbitrary: i sb)
  case Nil
  then show ?case by simp
next
  case (Cons n ns)
  show ?case
  proof (cases ns)
    case Nil
    with Cons.prems show ?thesis by simp
  next
    case (Cons n' ns')
    with Cons.prems have lt: "i + 1 < length L" by simp
    have rest: "Suc i + length ns = length L" using Cons.prems by simp
    have "writeLabels sep L i (n # ns) sb =
          writeLabels sep L (Suc i) ns (sb @ n @ [sep] @ lookup L n @ [sep])"
      using lt by (simp add: Let_def)
    also have "\<dots> = (sb @ n @ [sep] @ lookup L n @ [sep]) @
          join_sep sep (concat (map (\<lambda>n. [n, lookup L n]) ns))"
      by (rule Cons.IH [OF rest])
    also have "\<dots> = sb @ join_sep sep (concat (map (\<lambda>n. [n, lookup L n]) (n # ns)))"
      by (simp add: Cons)
    finally show ?thesis .
  qed
qed

lemma GroupingKeyFor_spec: "GroupingKeyFor sep L = spec_grouping_key sep L"
proof (cases L)
  case Nil
  then show ?thesis by (simp add: GroupingKeyFor_def spec_grouping_key_def)
next
  case (Cons p ps)
  have "writeLabels sep L 0 (sort (map fst L)) [] =
        [] @ join_sep sep (concat (map (\<lambda>n. [n, lookup L n]) (sort (map fst L))))"
    by (rule writeLabels_join) simp
  with Cons show ?thesis by (simp add: GroupingKeyFor_def spec_grouping_key_def)
qed

lemma spec_grouping_key_perm:
  assumes "distinct (map fst L)" and "mset L' = mset L"
  shows "spec_grouping_key sep L' = spec_grouping_key sep L"
proof -
  have names: "mset (map fst L') = mset (map fst L)"
    using assms(2) by (metis mset_map)
  then have "distinct (map fst L')"
    using assms(1) by (metis mset_eq_imp_distinct_iff)
  moreover have "set L' = set L" using assms(2) by (metis mset_eq_setD)
  ultimately have "map_of L' = map_of L"
    using assms(1) by (simp add: map_of_inject_set)
  then have "lookup L' = lookup L" by (simp add: lookup_def fun_eq_iff)
  moreover have "sort (map fst L') = sort (map fst L)"
    using names by (metis properties_for_sort sorted_sort mset_sort)
  ultimately show ?thesis by (simp add: spec_grouping_key_def)
qed

text \<open>
  C7, as the claim states it, fails: the separator is not the NUL byte.  The code joins
  with \<open>model.SeparatorByte\<close>, the byte 255, so the key of the labels \<open>job = t\<close> and
  \<open>instance = i\<close> is \<open>instance\<close>, \<open>i\<close>, \<open>job\<close>, \<open>t\<close> joined by the byte 255, which is not
  the NUL-joined string that the claim describes.
\<close>

theorem grouping_key_separator_counterexample:
  "GroupingKeyFor SeparatorByte [(''job'', ''t''), (''instance'', ''i'')] =
     ''instance'' @ [CHR 0xFF] @ ''i'' @ [CHR 0xFF] @ ''job'' @ [CHR 0xFF] @ ''t'' \<and>
   spec_grouping_key (CHR 0x00) [(''job'', ''t''), (''instance'', ''i'')] =
     ''instance'' @ [CHR 0x00] @ ''i'' @ [CHR 0x00] @ ''job'' @ [CHR 0x00] @ ''t'' \<and>
   GroupingKeyFor SeparatorByte [(''job'', ''t''), (''instance'', ''i'')] \<noteq>
     spec_grouping_key (CHR 0x00) [(''job'', ''t''), (''instance'', ''i'')]"
  by (simp add: GroupingKeyFor_def spec_grouping_key_def lookup_def SeparatorByte_def)

text \<open>
  C7, amended.  For every label map \<open>L\<close>, the grouping key that the program builds is the
  string the specification describes with \<open>model.SeparatorByte\<close>, the byte 255, as the
  separator: the label names sorted lexicographically, each followed by its value, joined
  by single separator bytes with no separator at the end.  The empty map gives the empty
  string, and a map that holds the same pairs in another order (another insertion or
  iteration order) gives the same key.
\<close>

theorem GroupingKeyFor_canonical:
  "SeparatorByte = CHR 0xFF \<and>
   GroupingKeyFor SeparatorByte L = spec_grouping_key SeparatorByte L \<and>
   GroupingKeyFor SeparatorByte [] = [] \<and>
   (distinct (map fst L) \<and> mset L' = mset L \<longrightarrow>
      GroupingKeyFor SeparatorByte L' = GroupingKeyFor SeparatorByte L)"
  by (simp add: GroupingKeyFor_spec spec_grouping_key_perm)
     (simp add: spec_grouping_key_def SeparatorByte_def)

theorem GroupingKeyFor_canonical_witness:
  "GroupingKeyFor SeparatorByte [(''job'', ''t''), (''instance'', ''i'')] =
     ''instance'' @ [CHR 0xFF] @ ''i'' @ [CHR 0xFF] @ ''job'' @ [CHR 0xFF] @ ''t'' \<and>
   GroupingKeyFor SeparatorByte [(''instance'', ''i''), (''job'', ''t'')] =
     GroupingKeyFor SeparatorByte [(''job'', ''t''), (''instance'', ''i'')]"
proof -
  have d: "distinct (map fst [(''job'', ''t''), (''instance'', ''i'')])" by simp
  have p: "mset [(''instance'', ''i''), (''job'', ''t'')] = mset [(''job'', ''t''), (''instance'', ''i'')]"
    by (simp add: add.commute)
  have s: "spec_grouping_key SeparatorByte [(''job'', ''t''), (''instance'', ''i'')] =
     ''instance'' @ [CHR 0xFF] @ ''i'' @ [CHR 0xFF] @ ''job'' @ [CHR 0xFF] @ ''t''"
    by (simp add: spec_grouping_key_def lookup_def SeparatorByte_def)
  from GroupingKeyFor_canonical [of "[(''job'', ''t''), (''instance'', ''i'')]"
      "[(''instance'', ''i''), (''job'', ''t'')]"] d p s
  show ?thesis by simp
qed

section \<open>The validator\<close>

lemma typeConflict_intro:
  assumes "(k, grp) \<in> set ms"
    and "map_of (g_MetricFamilies grp) F = Some f1"
    and "(n, f2) \<in> set fams" and "mf_Name f2 = F" and "mf_Type f2 \<noteq> mf_Type f1"
  shows "typeConflict ms fams"
proof -
  have "case map_of (g_MetricFamilies grp) (mf_Name f2) of
          Some f1 \<Rightarrow> mf_Type f1 \<noteq> mf_Type f2 | None \<Rightarrow> False"
    using assms(2,4,5) by auto
  then have "\<exists>x\<in>set ms. case x of (k, g) \<Rightarrow>
          (case map_of (g_MetricFamilies g) (mf_Name f2) of
             Some f1 \<Rightarrow> mf_Type f1 \<noteq> mf_Type f2 | None \<Rightarrow> False)"
    using assms(1) by (intro bexI [of _ "(k, grp)"]) simp_all
  then show ?thesis
    unfolding typeConflict_def list_ex_iff
    using assms(3) by (intro bexI [of _ "(n, f2)"]) simp_all
qed

text \<open>
  C1.  If a group of the store holds a family under the name \<open>F\<close> and a non-delete write
  request carries a family named \<open>F\<close> of another type, then \<open>validateConsistency\<close> fails
  with the type conflict error and leaves the request as it was, and the worker that
  takes this request leaves the store exactly as it was: a scrape after it returns what a
  scrape before it returned.  This holds with and without a done channel.
\<close>

theorem type_conflict_rejected:
  assumes "(k, grp) \<in> set ms"
    and "map_of (g_MetricFamilies grp) F = Some f1"
    and "wr_MetricFamilies wr = Some fams"
    and "(n, f2) \<in> set fams" and "mf_Name f2 = F" and "mf_Type f2 \<noteq> mf_Type f1"
  shows "validateConsistency sep gatherOk ms wr = Some (Some TypeConflict, wr) \<and>
         w_storage (loop sep gatherOk ms tr [wr]) = ms \<and>
         GetMetricFamilies (w_storage (loop sep gatherOk ms tr [wr])) = GetMetricFamilies ms"
proof -
  have tc: "typeConflict ms fams"
    using assms(1,2,4,5,6) by (rule typeConflict_intro)
  then have v: "validateConsistency sep gatherOk ms wr = Some (Some TypeConflict, wr)"
    using assms(3) by (simp add: validateConsistency_def)
  then have "w_storage (loop sep gatherOk ms tr [wr]) = ms"
    by (simp add: closeDone_def split: option.split)
  with v show ?thesis by simp
qed

theorem type_conflict_rejected_witness:
  "validateConsistency (CHR 0xFF) (\<lambda>fs. True) gaugeStore
     (pushFoo COUNTER (plainMetric\<lparr>m_Counter := Some 2\<rparr>) (Some 0)) =
     Some (Some TypeConflict, pushFoo COUNTER (plainMetric\<lparr>m_Counter := Some 2\<rparr>) (Some 0)) \<and>
   w_storage (loop (CHR 0xFF) (\<lambda>fs. True) gaugeStore []
     [pushFoo COUNTER (plainMetric\<lparr>m_Counter := Some 2\<rparr>) (Some 0)]) = gaugeStore"
proof -
  let ?f1 = "fooFamily GAUGE (plainMetric\<lparr>m_Gauge := Some 1\<rparr>)"
  let ?f2 = "fooFamily COUNTER (plainMetric\<lparr>m_Counter := Some 2\<rparr>)"
  let ?g = "\<lparr>g_Labels = [(''job'', ''t'')], g_MetricFamilies = [(''foo'', ?f1)]\<rparr>"
  have a: "(''job'' @ [CHR 0xFF] @ ''t'', ?g) \<in> set gaugeStore" by (simp add: gaugeStore_def)
  have b: "map_of (g_MetricFamilies ?g) ''foo'' = Some ?f1" by simp
  have c: "wr_MetricFamilies (pushFoo COUNTER (plainMetric\<lparr>m_Counter := Some 2\<rparr>) (Some 0)) =
     Some [(''foo'', ?f2)]" by (simp add: pushFoo_def)
  have d: "(''foo'', ?f2) \<in> set [(''foo'', ?f2)]" by simp
  have e: "mf_Name ?f2 = ''foo''" by (simp add: fooFamily_def)
  have f: "mf_Type ?f2 \<noteq> mf_Type ?f1" by (simp add: fooFamily_def)
  from type_conflict_rejected [OF a b c d e f, of "CHR 0xFF" "\<lambda>fs. True" "[]"]
  show ?thesis by (simp del: loop.simps)
qed

text \<open>
  C3, as the claim states it, fails: the type check runs before the timestamp check, so a
  request with a timestamp whose family conflicts with a stored one is refused with the
  type conflict error, not with the timestamp error.  Here the store holds \<open>foo\<close> as a
  gauge and the request pushes \<open>foo\<close> as a counter with a timestamp, without a done
  channel.
\<close>

theorem timestamp_error_counterexample:
  "TimestampsPresent [(''foo'', fooFamily COUNTER (plainMetric\<lparr>m_Counter := Some 2, m_TimestampMs := Some 7\<rparr>))] \<and>
   validateConsistency (CHR 0xFF) (\<lambda>fs. True) gaugeStore
     (pushFoo COUNTER (plainMetric\<lparr>m_Counter := Some 2, m_TimestampMs := Some 7\<rparr>) None) =
     Some (Some TypeConflict,
       pushFoo COUNTER (plainMetric\<lparr>m_Counter := Some 2, m_TimestampMs := Some 7\<rparr>) None)"
  by (simp add: ex_defs TimestampsPresent_def validateConsistency_def typeConflict_def)

text \<open>
  C3, amended.  For every non-delete write request in which some metric carries a
  timestamp, \<open>validateConsistency\<close> returns an error, with or without a done channel:
  the type conflict error when a family of the request conflicts with a stored one, the
  timestamp error otherwise.  The request is not applied: the worker leaves the store as
  it was.
\<close>

theorem timestamp_rejected:
  assumes "wr_MetricFamilies wr = Some fams" and "TimestampsPresent fams"
  shows "validateConsistency sep gatherOk ms wr =
           Some (Some (if typeConflict ms fams then TypeConflict else TimestampForbidden), wr) \<and>
         w_storage (loop sep gatherOk ms tr [wr]) = ms"
proof -
  have v: "validateConsistency sep gatherOk ms wr =
           Some (Some (if typeConflict ms fams then TypeConflict else TimestampForbidden), wr)"
    using assms by (simp add: validateConsistency_def)
  then have "w_storage (loop sep gatherOk ms tr [wr]) = ms"
    by (simp add: closeDone_def split: option.split)
  with v show ?thesis by simp
qed

theorem timestamp_rejected_witness:
  "validateConsistency (CHR 0xFF) (\<lambda>fs. True) []
     (pushFoo COUNTER (plainMetric\<lparr>m_Counter := Some 2, m_TimestampMs := Some 7\<rparr>) None) =
     Some (Some TimestampForbidden,
       pushFoo COUNTER (plainMetric\<lparr>m_Counter := Some 2, m_TimestampMs := Some 7\<rparr>) None) \<and>
   w_storage (loop (CHR 0xFF) (\<lambda>fs. True) [] []
     [pushFoo COUNTER (plainMetric\<lparr>m_Counter := Some 2, m_TimestampMs := Some 7\<rparr>) None]) = []"
proof -
  let ?fams = "[(''foo'', fooFamily COUNTER (plainMetric\<lparr>m_Counter := Some 2, m_TimestampMs := Some 7\<rparr>))]"
  have a: "wr_MetricFamilies (pushFoo COUNTER (plainMetric\<lparr>m_Counter := Some 2, m_TimestampMs := Some 7\<rparr>) None) = Some ?fams"
    by (simp add: pushFoo_def)
  have b: "TimestampsPresent ?fams" by (simp add: ex_defs TimestampsPresent_def)
  have c: "\<not> typeConflict [] ?fams" by (simp add: typeConflict_def)
  from timestamp_rejected [OF a b, of "CHR 0xFF" "\<lambda>fs. True" "[]" "[]"] c
  show ?thesis by (simp del: loop.simps)
qed

text \<open>
  C6, as the claim states it, fails: on a timestamp (and on a type conflict) the validator
  returns before it sanitizes.  The request below is refused for its timestamp and comes
  back as it was, and its family is not a sanitized one: sanitizing would change it.
\<close>

theorem sanitize_side_effect_counterexample:
  "validateConsistency (CHR 0xFF) (\<lambda>fs. True) []
     (pushFoo COUNTER (plainMetric\<lparr>m_Counter := Some 2, m_TimestampMs := Some 7\<rparr>) None) =
     Some (Some TimestampForbidden,
       pushFoo COUNTER (plainMetric\<lparr>m_Counter := Some 2, m_TimestampMs := Some 7\<rparr>) None) \<and>
   SanitizeLabels (fooFamily COUNTER (plainMetric\<lparr>m_Counter := Some 2, m_TimestampMs := Some 7\<rparr>))
       [(''job'', ''t'')] \<noteq>
     fooFamily COUNTER (plainMetric\<lparr>m_Counter := Some 2, m_TimestampMs := Some 7\<rparr>)"
  by (simp add: ex_defs TimestampsPresent_def validateConsistency_def typeConflict_def
      SanitizeLabels_def sanitizeMetric_def refill_def InstanceLabel_def)

text \<open>
  C6, amended.  For every non-delete write request, when \<open>validateConsistency\<close> returns
  anything but the type conflict or the timestamp error (no error, with or without the
  deep check, or the error of the gather pass), every family of the request has been
  sanitized against the request's grouping labels; when it returns one of those two
  errors the request is as it was.
\<close>

theorem sanitized_unless_rejected_early:
  assumes "wr_MetricFamilies wr = Some fams"
    and "validateConsistency sep gatherOk ms wr = Some (err, wr')"
  shows "if err = Some TypeConflict \<or> err = Some TimestampForbidden then wr' = wr
         else wr' = wr\<lparr>wr_MetricFamilies :=
                Some (map (\<lambda>(n, mf). (n, SanitizeLabels mf (wr_Labels wr))) fams)\<rparr>"
  using assms
  by (auto simp: validateConsistency_def Let_def split: if_splits option.splits)

theorem sanitized_unless_rejected_early_witness:
  "validateConsistency (CHR 0xFF) (\<lambda>fs. False) []
     (pushFoo COUNTER (plainMetric\<lparr>m_Counter := Some 2\<rparr>) (Some 0)) =
     Some (Some InconsistentOnGather,
       (pushFoo COUNTER (plainMetric\<lparr>m_Counter := Some 2\<rparr>) (Some 0))
         \<lparr>wr_MetricFamilies := Some [(''foo'',
            SanitizeLabels (fooFamily COUNTER (plainMetric\<lparr>m_Counter := Some 2\<rparr>)) [(''job'', ''t'')])]\<rparr>)"
proof -
  let ?wr = "pushFoo COUNTER (plainMetric\<lparr>m_Counter := Some 2\<rparr>) (Some 0)"
  let ?fams = "[(''foo'', fooFamily COUNTER (plainMetric\<lparr>m_Counter := Some 2\<rparr>))]"
  let ?wr' = "?wr\<lparr>wr_MetricFamilies := Some [(''foo'',
            SanitizeLabels (fooFamily COUNTER (plainMetric\<lparr>m_Counter := Some 2\<rparr>)) [(''job'', ''t'')])]\<rparr>"
  have a: "wr_MetricFamilies ?wr = Some ?fams" by (simp add: pushFoo_def)
  have b: "validateConsistency (CHR 0xFF) (\<lambda>fs. False) [] ?wr = Some (Some InconsistentOnGather, ?wr')"
    by (simp add: ex_defs TimestampsPresent_def validateConsistency_def typeConflict_def
        processWriteRequest_def GetMetricGroups_def Let_def)
  from sanitized_unless_rejected_early [OF a b] show ?thesis using b by simp
qed

section \<open>The worker and its done channel\<close>

lemma validateConsistency_Done:
  "validateConsistency sep gatherOk ms wr = Some (err, wr') \<Longrightarrow> wr_Done wr' = wr_Done wr"
  by (auto simp: validateConsistency_def Let_def split: if_splits option.splits)

text \<open>
  C5, as the claim states it, fails: after a successful validation the worker sends
  nothing, it only closes the channel.  The request below is valid and has the done
  channel \<open>0\<close>; the trace of the worker is the single \<open>Close\<close>.
\<close>

theorem done_send_counterexample:
  "loop (CHR 0xFF) (\<lambda>fs. True) [] [] [pushFoo COUNTER (plainMetric\<lparr>m_Counter := Some 2\<rparr>) (Some 0)] =
     \<lparr>w_storage = [(''job'' @ [CHR 0xFF] @ ''t'',
        \<lparr>g_Labels = [(''job'', ''t'')], g_MetricFamilies = [(''foo'', sanitizedFoo 2)]\<rparr>)],
      w_trace = [Close 0], w_status = Waiting\<rparr>"
  by (simp add: eval_defs ex_defs)

text \<open>
  C5, amended.  For every write request the worker takes: when the validator fails and a
  done channel is provided, the worker sends exactly the validator's error on it and
  then closes it, and the store stays as it was; when the validator succeeds, the worker
  applies the request and sends nothing: it closes the done channel if one is provided
  and touches no channel otherwise.  (Nothing is said here of a failing request without
  a done channel.)
\<close>

theorem worker_done_protocol:
  "(validateConsistency sep gatherOk ms wr = Some (Some err, wr') \<and> wr_Done wr = Some c \<longrightarrow>
      loop sep gatherOk ms tr (wr # q) = loop sep gatherOk ms (tr @ [Send c err, Close c]) q) \<and>
   (validateConsistency sep gatherOk ms wr = Some (None, wr') \<and>
      processWriteRequest sep ms wr' = Some ms' \<longrightarrow>
      loop sep gatherOk ms tr (wr # q) =
        loop sep gatherOk ms' (tr @ (case wr_Done wr of Some c \<Rightarrow> [Close c] | None \<Rightarrow> [])) q)"
  by (auto simp: closeDone_def dest: validateConsistency_Done)

theorem worker_done_protocol_witness:
  "loop (CHR 0xFF) (\<lambda>fs. True) gaugeStore []
     [pushFoo COUNTER (plainMetric\<lparr>m_Counter := Some 2\<rparr>) (Some 0)] =
   \<lparr>w_storage = gaugeStore, w_trace = [Send 0 TypeConflict, Close 0], w_status = Waiting\<rparr> \<and>
   w_trace (loop (CHR 0xFF) (\<lambda>fs. True) [] []
     [pushFoo COUNTER (plainMetric\<lparr>m_Counter := Some 2\<rparr>) None]) = []"
proof -
  let ?wr = "pushFoo COUNTER (plainMetric\<lparr>m_Counter := Some 2\<rparr>) (Some 0)"
  let ?wn = "pushFoo COUNTER (plainMetric\<lparr>m_Counter := Some 2\<rparr>) None"
  let ?ms = "[(''job'' @ [CHR 0xFF] @ ''t'',
        \<lparr>g_Labels = [(''job'', ''t'')], g_MetricFamilies = [(''foo'', sanitizedFoo 2)]\<rparr>)]"
  have v: "validateConsistency (CHR 0xFF) (\<lambda>fs. True) gaugeStore ?wr = Some (Some TypeConflict, ?wr)"
    by (simp add: eval_defs ex_defs)
  have d: "wr_Done ?wr = Some 0" by (simp add: pushFoo_def)
  have a: "loop (CHR 0xFF) (\<lambda>fs. True) gaugeStore [] [?wr] =
     \<lparr>w_storage = gaugeStore, w_trace = [Send 0 TypeConflict, Close 0], w_status = Waiting\<rparr>"
    using worker_done_protocol [of "CHR 0xFF" "\<lambda>fs. True" gaugeStore ?wr TypeConflict ?wr 0 "[]" "[]"] v d
    by (simp del: loop.simps) simp
  have v': "validateConsistency (CHR 0xFF) (\<lambda>fs. True) [] ?wn =
      Some (None, ?wn\<lparr>wr_MetricFamilies := Some [(''foo'', sanitizedFoo 2)]\<rparr>)"
    by (simp add: eval_defs ex_defs)
  have p: "processWriteRequest (CHR 0xFF) [] (?wn\<lparr>wr_MetricFamilies := Some [(''foo'', sanitizedFoo 2)]\<rparr>) =
      Some ?ms"
    by (simp add: eval_defs ex_defs)
  have n: "wr_Done ?wn = None" by (simp add: pushFoo_def)
  have b: "w_trace (loop (CHR 0xFF) (\<lambda>fs. True) [] [] [?wn]) = []"
    using worker_done_protocol [of "CHR 0xFF" "\<lambda>fs. True" "[]" ?wn _ "?wn\<lparr>wr_MetricFamilies := Some [(''foo'', sanitizedFoo 2)]\<rparr>" _ "[]" "[]" ?ms] v' p n
    by (simp del: loop.simps) simp
  from a b show ?thesis by (simp del: loop.simps)
qed

section \<open>Counter accumulation\<close>

text \<open>
  C2.  From the empty store, a validated push of the counter family \<open>foo\<close> with one metric
  of value 5 under the grouping labels \<open>job = t\<close>, followed by a validated merging push of
  \<open>foo\<close> with one metric of value 4 under the same labels, leaves one group with the one
  family \<open>foo\<close>, whose one metric has the counter value 9 and exactly the label pairs
  \<open>instance = ""\<close> and \<open>job = t\<close>.  Each push may come with or without a done channel; with
  one, the gather pass of the imported library is assumed to accept the store the push
  would leave.
\<close>

theorem counter_accumulation:
  assumes "d1 \<noteq> None \<longrightarrow> gatherOk [sanitizedFoo 5]"
    and "d2 \<noteq> None \<longrightarrow> gatherOk [sanitizedFoo 9]"
  shows "loop sep gatherOk [] []
           [pushFoo COUNTER (plainMetric\<lparr>m_Counter := Some 5\<rparr>) d1,
            pushFoo COUNTER (plainMetric\<lparr>m_Counter := Some 4\<rparr>) d2] =
         \<lparr>w_storage = [(''job'' @ [sep] @ ''t'',
             \<lparr>g_Labels = [(''job'', ''t'')], g_MetricFamilies = [(''foo'', sanitizedFoo 9)]\<rparr>)],
          w_trace = (case d1 of Some c \<Rightarrow> [Close c] | None \<Rightarrow> []) @
                    (case d2 of Some c \<Rightarrow> [Close c] | None \<Rightarrow> []),
          w_status = Waiting\<rparr>"
  using assms
  by (cases d1; cases d2) (simp_all add: eval_defs ex_defs)

theorem counter_accumulation_witness:
  "GetMetricFamilies (w_storage (loop (CHR 0xFF) (\<lambda>fs. fs = [sanitizedFoo 5] \<or> fs = [sanitizedFoo 9]) [] []
           [pushFoo COUNTER (plainMetric\<lparr>m_Counter := Some 5\<rparr>) (Some 1),
            pushFoo COUNTER (plainMetric\<lparr>m_Counter := Some 4\<rparr>) (Some 2)])) = [sanitizedFoo 9]"
  using counter_accumulation [of "Some 1" "\<lambda>fs. fs = [sanitizedFoo 5] \<or> fs = [sanitizedFoo 9]" "Some 2" "CHR 0xFF"]
  by (simp add: GetMetricFamilies_def del: loop.simps)

section \<open>Grouping keys are not injective\<close>

text \<open>
  C10.  The grouping key does not determine the label map: for every separator byte, the
  map with the single label \<open>a\<close> whose value spells \<open>1 sep b sep 2\<close> and the map with the
  labels \<open>a = 1\<close> and \<open>b = 2\<close> are different maps with the same key.  So two pushes under
  these two grouping label sets end in one group of the store, and \<open>mergeFamilies\<close> adds up
  two counters whose label pairs differ in the same way.
\<close>

theorem grouping_key_not_injective:
  "distinct (map fst (embeddedLabels sep)) \<and> distinct (map fst splitLabels) \<and>
   map_of (embeddedLabels sep) \<noteq> map_of splitLabels \<and>
   GroupingKeyFor sep (embeddedLabels sep) = GroupingKeyFor sep splitLabels \<and>
   length (w_storage (loop sep gatherOk [] [] [pushTo (embeddedLabels sep) 1, pushTo splitLabels 2])) = 1 \<and>
   mergeFamilies sep (labelledCounter (embeddedLabels sep) 1) (labelledCounter splitLabels 2) =
     Some (None, labelledCounter (embeddedLabels sep) 3)"
proof -
  have "map_of (embeddedLabels sep) ''b'' \<noteq> map_of splitLabels ''b''"
    by (simp add: ex2_defs)
  then have ne: "map_of (embeddedLabels sep) \<noteq> map_of splitLabels" by metis
  have k: "GroupingKeyFor sep (embeddedLabels sep) = GroupingKeyFor sep splitLabels"
    by (simp add: ex2_defs GroupingKeyFor_def lookup_def)
  have s: "length (w_storage (loop sep gatherOk [] [] [pushTo (embeddedLabels sep) 1, pushTo splitLabels 2])) = 1"
    by (simp add: eval_defs ex_defs ex2_defs)
  have m: "mergeFamilies sep (labelledCounter (embeddedLabels sep) 1) (labelledCounter splitLabels 2) =
     Some (None, labelledCounter (embeddedLabels sep) 3)"
    by (simp add: eval_defs ex_defs ex2_defs)
  show ?thesis using ne k s m by (simp add: ex2_defs)
qed

section \<open>Merging histograms\<close>

lemma indexBuckets_other:
  "u \<notin> b_UpperBound ` set bs \<Longrightarrow> map_of (indexBuckets mm k bs) u = map_of mm u"
  by (induction bs arbitrary: mm k) (auto simp: update_conv')

lemma indexBuckets_nth:
  "distinct (map b_UpperBound bs) \<Longrightarrow> i < length bs \<Longrightarrow>
   map_of (indexBuckets mm k bs) (b_UpperBound (bs ! i)) = Some (k + i)"
proof (induction bs arbitrary: mm k i)
  case Nil
  then show ?case by simp
next
  case (Cons b bs)
  show ?case
  proof (cases i)
    case 0
    have "b_UpperBound b \<notin> b_UpperBound ` set bs" using Cons.prems(1) by auto
    then show ?thesis using 0 by (simp add: indexBuckets_other update_conv')
  next
    case (Suc j)
    then show ?thesis using Cons.IH [of j _ "Suc k"] Cons.prems by simp
  qed
qed

lemma addCount_bound [simp]: "b_UpperBound (addCount b2 b) = b_UpperBound b"
  by (simp add: addCount_def)

lemma map_addCount_other:
  "b_UpperBound b2 \<notin> b_UpperBound ` set pre \<Longrightarrow> map (addCount b2) pre = pre"
  by (induction pre) (auto simp: addCount_def)

lemma map_addCount_nth:
  assumes "distinct (map b_UpperBound pre)" and "i < length pre"
    and "b_UpperBound (pre ! i) = b_UpperBound b2"
  shows "map (addCount b2) pre = pre[i := addCount b2 (pre ! i)]"
proof (rule nth_equalityI)
  show "length (map (addCount b2) pre) = length (pre[i := addCount b2 (pre ! i)])" by simp
next
  fix j assume "j < length (map (addCount b2) pre)"
  then have j: "j < length pre" by simp
  show "map (addCount b2) pre ! j = pre[i := addCount b2 (pre ! i)] ! j"
  proof (cases "j = i")
    case True
    then show ?thesis using j by simp
  next
    case False
    have "b_UpperBound (pre ! j) \<noteq> b_UpperBound (pre ! i)"
      using nth_eq_iff_index_eq [OF assms(1), of j i] assms(2) j False by simp
    then have "b_UpperBound (pre ! j) \<noteq> b_UpperBound b2"
      using assms(3) by simp
    then show ?thesis using j False by (simp add: addCount_def)
  qed
qed

lemma mergeBucketsLoop_eq:
  assumes "distinct (map b_UpperBound orig)"
    and "map b_UpperBound pre = map b_UpperBound orig"
  shows "mergeBucketsLoop (indexBuckets [] 0 orig) (pre @ suf) rest =
         map (fold addCount rest) pre @ suf @
         filter (\<lambda>b. b_UpperBound b \<notin> b_UpperBound ` set orig) rest"
  using assms(2)
proof (induction rest arbitrary: pre suf)
  case Nil
  then show ?case by simp
next
  case (Cons b2 rest)
  have len: "length pre = length orig" using Cons.prems by (metis length_map)
  have dpre: "distinct (map b_UpperBound pre)" using assms(1) Cons.prems by simp
  have bounds: "b_UpperBound ` set pre = b_UpperBound ` set orig"
    using Cons.prems by (metis list.set_map)
  show ?case
  proof (cases "b_UpperBound b2 \<in> b_UpperBound ` set orig")
    case False
    then have none: "map_of (indexBuckets [] 0 orig) (b_UpperBound b2) = None"
      by (simp add: indexBuckets_other)
    have same: "map (addCount b2) pre = pre"
      using False bounds by (simp add: map_addCount_other)
    have "map (fold addCount (b2 # rest)) pre = map (fold addCount rest) (map (addCount b2) pre)"
      by simp
    then have m: "map (fold addCount (b2 # rest)) pre = map (fold addCount rest) pre"
      using same by simp
    have "mergeBucketsLoop (indexBuckets [] 0 orig) (pre @ suf) (b2 # rest) =
          mergeBucketsLoop (indexBuckets [] 0 orig) (pre @ (suf @ [b2])) rest"
      using none by simp
    also have "\<dots> = map (fold addCount rest) pre @ (suf @ [b2]) @
         filter (\<lambda>b. b_UpperBound b \<notin> b_UpperBound ` set orig) rest"
      by (rule Cons.IH [OF Cons.prems])
    finally show ?thesis using False m by simp
  next
    case True
    then obtain i where i: "i < length orig" "b_UpperBound (orig ! i) = b_UpperBound b2"
      by (metis (no_types, lifting) image_iff in_set_conv_nth)
    have some: "map_of (indexBuckets [] 0 orig) (b_UpperBound b2) = Some i"
      using indexBuckets_nth [OF assms(1) i(1), of "[]" 0] i(2) by simp
    have ipre: "i < length pre" using i(1) len by simp
    have "map b_UpperBound pre ! i = map b_UpperBound orig ! i" using Cons.prems by simp
    then have bi: "b_UpperBound (pre ! i) = b_UpperBound b2" using i ipre by simp
    have upd: "map (addCount b2) pre = pre[i := addCount b2 (pre ! i)]"
      using dpre ipre bi by (rule map_addCount_nth)
    have ac: "addCount b2 (pre ! i) =
       (pre ! i)\<lparr>b_CumulativeCount := b_CumulativeCount (pre ! i) + b_CumulativeCount b2\<rparr>"
      using bi by (simp add: addCount_def)
    have pres: "map b_UpperBound (map (addCount b2) pre) = map b_UpperBound orig"
      using Cons.prems by (simp add: comp_def)
    have "mergeBucketsLoop (indexBuckets [] 0 orig) (pre @ suf) (b2 # rest) =
          mergeBucketsLoop (indexBuckets [] 0 orig) (map (addCount b2) pre @ suf) rest"
      using some ipre upd ac by (simp add: nth_append list_update_append)
    also have "\<dots> = map (fold addCount rest) (map (addCount b2) pre) @ suf @
         filter (\<lambda>b. b_UpperBound b \<notin> b_UpperBound ` set orig) rest"
      by (rule Cons.IH [OF pres])
    finally show ?thesis using True by simp
  qed
qed

lemma mergeBuckets_eq:
  "distinct (map b_UpperBound b1) \<Longrightarrow>
   mergeBuckets b1 b2 = map (fold addCount b2) b1 @
     filter (\<lambda>b. b_UpperBound b \<notin> b_UpperBound ` set b1) b2"
  using mergeBucketsLoop_eq [of b1 b1 "[]" b2] by (simp add: mergeBuckets_def)

lemma fold_addCount_bound [simp]: "b_UpperBound (fold addCount bs b) = b_UpperBound b"
  by (induction bs arbitrary: b) simp_all

lemma countAt_None: "countAt bs u = None \<longleftrightarrow> u \<notin> b_UpperBound ` set bs"
  by (simp add: countAt_def map_of_eq_None_iff image_image)

lemma countAt_append:
  "countAt (xs @ ys) u = (case countAt xs u of Some x \<Rightarrow> Some x | None \<Rightarrow> countAt ys u)"
  by (simp add: countAt_def map_add_def split: option.split)

lemma countAt_filter:
  "countAt (filter (\<lambda>b. b_UpperBound b \<notin> S) bs) u = (if u \<in> S then None else countAt bs u)"
  by (induction bs) (auto simp: countAt_def)

lemma fold_addCount_count:
  "distinct (map b_UpperBound bs2) \<Longrightarrow>
   b_CumulativeCount (fold addCount bs2 b) =
     b_CumulativeCount b + (case countAt bs2 (b_UpperBound b) of Some y \<Rightarrow> y | None \<Rightarrow> 0)"
proof (induction bs2 arbitrary: b)
  case Nil
  then show ?case by (simp add: countAt_def)
next
  case (Cons x bs2)
  show ?case
  proof (cases "b_UpperBound x = b_UpperBound b")
    case True
    then have "b_UpperBound b \<notin> b_UpperBound ` set bs2" using Cons.prems by auto
    then have "countAt bs2 (b_UpperBound b) = None" by (simp add: countAt_None)
    then show ?thesis using Cons.IH [of "addCount x b"] Cons.prems True
      by (simp add: addCount_def countAt_def)
  next
    case False
    then show ?thesis using Cons.IH [of b] Cons.prems
      by (simp add: addCount_def countAt_def)
  qed
qed

lemma countAt_map_fold:
  "distinct (map b_UpperBound bs2) \<Longrightarrow>
   countAt (map (fold addCount bs2) b1) u =
     (case countAt b1 u of None \<Rightarrow> None
      | Some x \<Rightarrow> Some (x + (case countAt bs2 u of Some y \<Rightarrow> y | None \<Rightarrow> 0)))"
proof (induction b1)
  case Nil
  then show ?case by (simp add: countAt_def)
next
  case (Cons b b1)
  then have "countAt (map (fold addCount bs2) b1) u =
     (case countAt b1 u of None \<Rightarrow> None
      | Some x \<Rightarrow> Some (x + (case countAt bs2 u of Some y \<Rightarrow> y | None \<Rightarrow> 0)))" by simp
  then show ?case using fold_addCount_count [OF Cons.prems, of b]
    by (auto simp: countAt_def)
qed

lemma mergeBuckets_bounds:
  assumes "distinct (map b_UpperBound b1)"
  shows "b_UpperBound ` set (mergeBuckets b1 b2) = b_UpperBound ` set b1 \<union> b_UpperBound ` set b2"
proof -
  have l: "b_UpperBound ` set (map (fold addCount b2) b1) = b_UpperBound ` set b1"
    by (simp add: image_image)
  have r: "b_UpperBound ` set (filter (\<lambda>b. b_UpperBound b \<notin> b_UpperBound ` set b1) b2) =
        b_UpperBound ` set b2 - b_UpperBound ` set b1"
    by auto
  have "b_UpperBound ` set (mergeBuckets b1 b2) =
      b_UpperBound ` set (map (fold addCount b2) b1) \<union>
      b_UpperBound ` set (filter (\<lambda>b. b_UpperBound b \<notin> b_UpperBound ` set b1) b2)"
    unfolding mergeBuckets_eq [OF assms] by (simp only: set_append image_Un)
  then show ?thesis unfolding l r by blast
qed

lemma mergeBuckets_distinct:
  assumes "distinct (map b_UpperBound b1)" and "distinct (map b_UpperBound b2)"
  shows "distinct (map b_UpperBound (mergeBuckets b1 b2))"
proof -
  let ?kept = "filter (\<lambda>b. b_UpperBound b \<notin> b_UpperBound ` set b1) b2"
  have l: "map b_UpperBound (map (fold addCount b2) b1) = map b_UpperBound b1"
    by (simp add: comp_def)
  have r: "distinct (map b_UpperBound ?kept)"
    using assms(2) by (rule distinct_map_filter)
  have d: "set (map b_UpperBound b1) \<inter> set (map b_UpperBound ?kept) = {}"
    by (fastforce simp: image_iff)
  have "map b_UpperBound (mergeBuckets b1 b2) = map b_UpperBound b1 @ map b_UpperBound ?kept"
    unfolding mergeBuckets_eq [OF assms(1)] using l by simp
  then show ?thesis using assms(1) r d by (simp only: distinct_append)
qed

lemma mergeBuckets_countAt:
  assumes "distinct (map b_UpperBound b1)" and "distinct (map b_UpperBound b2)"
  shows "countAt (mergeBuckets b1 b2) u =
     (case (countAt b1 u, countAt b2 u) of
        (Some x, Some y) \<Rightarrow> Some (x + y)
      | (Some x, None) \<Rightarrow> Some x
      | (None, Some y) \<Rightarrow> Some y
      | (None, None) \<Rightarrow> None)"
proof (cases "countAt b1 u")
  case None
  then have "u \<notin> b_UpperBound ` set b1" by (simp add: countAt_None)
  then show ?thesis using None
    unfolding mergeBuckets_eq [OF assms(1)]
    by (simp add: countAt_append countAt_map_fold [OF assms(2)] countAt_filter split: option.split)
next
  case (Some x)
  then show ?thesis
    unfolding mergeBuckets_eq [OF assms(1)]
    by (simp add: countAt_append countAt_map_fold [OF assms(2)] split: option.split)
qed

text \<open>
  C8.  Merging the histogram metric \<open>m2\<close> into \<open>m1\<close>, both with pairwise distinct bucket
  bounds, does not panic; it adds the sample counts and the sample sums, and gives a
  bucket list whose bounds are exactly the bounds of \<open>m1\<close> together with those of \<open>m2\<close>,
  again pairwise distinct, where a bound of both inputs has the sum of the two cumulative
  counts and a bound of one input only keeps its count.
\<close>

theorem histogram_merge:
  assumes "m_Histogram m1 = Some hist1" and "m_Histogram m2 = Some hist2"
    and "distinct (map b_UpperBound (h_Bucket hist1))"
    and "distinct (map b_UpperBound (h_Bucket hist2))"
  shows "\<exists>bs. mergeMetrics HISTOGRAM m1 m2 =
           Some (m1\<lparr>m_Histogram := Some
             \<lparr>h_SampleCount = h_SampleCount hist1 + h_SampleCount hist2,
              h_SampleSum = h_SampleSum hist1 + h_SampleSum hist2,
              h_Bucket = bs\<rparr>\<rparr>) \<and>
         b_UpperBound ` set bs =
           b_UpperBound ` set (h_Bucket hist1) \<union> b_UpperBound ` set (h_Bucket hist2) \<and>
         distinct (map b_UpperBound bs) \<and>
         (\<forall>u. countAt bs u =
           (case (countAt (h_Bucket hist1) u, countAt (h_Bucket hist2) u) of
              (Some x, Some y) \<Rightarrow> Some (x + y)
            | (Some x, None) \<Rightarrow> Some x
            | (None, Some y) \<Rightarrow> Some y
            | (None, None) \<Rightarrow> None))"
proof (intro exI conjI allI)
  show "mergeMetrics HISTOGRAM m1 m2 =
           Some (m1\<lparr>m_Histogram := Some
             \<lparr>h_SampleCount = h_SampleCount hist1 + h_SampleCount hist2,
              h_SampleSum = h_SampleSum hist1 + h_SampleSum hist2,
              h_Bucket = mergeBuckets (h_Bucket hist1) (h_Bucket hist2)\<rparr>\<rparr>)"
    using assms(1,2) by simp
  show "b_UpperBound ` set (mergeBuckets (h_Bucket hist1) (h_Bucket hist2)) =
           b_UpperBound ` set (h_Bucket hist1) \<union> b_UpperBound ` set (h_Bucket hist2)"
    using assms(3) by (rule mergeBuckets_bounds)
  show "distinct (map b_UpperBound (mergeBuckets (h_Bucket hist1) (h_Bucket hist2)))"
    using assms(3,4) by (rule mergeBuckets_distinct)
  show "countAt (mergeBuckets (h_Bucket hist1) (h_Bucket hist2)) u =
           (case (countAt (h_Bucket hist1) u, countAt (h_Bucket hist2) u) of
              (Some x, Some y) \<Rightarrow> Some (x + y)
            | (Some x, None) \<Rightarrow> Some x
            | (None, Some y) \<Rightarrow> Some y
            | (None, None) \<Rightarrow> None)" for u
    using assms(3,4) by (rule mergeBuckets_countAt)
qed

theorem histogram_merge_witness:
  "mergeMetrics HISTOGRAM
     (histMetric 2 13 [\<lparr>b_CumulativeCount = 13, b_UpperBound = 20\<rparr>])
     (histMetric 3 40 [\<lparr>b_CumulativeCount = 13, b_UpperBound = 20\<rparr>,
                       \<lparr>b_CumulativeCount = 27, b_UpperBound = 40\<rparr>]) =
   Some (histMetric 5 53 [\<lparr>b_CumulativeCount = 26, b_UpperBound = 20\<rparr>,
                          \<lparr>b_CumulativeCount = 27, b_UpperBound = 40\<rparr>])"
proof -
  let ?b1 = "[\<lparr>b_CumulativeCount = 13, b_UpperBound = 20\<rparr>]"
  let ?b2 = "[\<lparr>b_CumulativeCount = 13, b_UpperBound = 20\<rparr>, \<lparr>b_CumulativeCount = 27, b_UpperBound = 40\<rparr>]"
  let ?h1 = "\<lparr>h_SampleCount = 2, h_SampleSum = 13, h_Bucket = ?b1\<rparr>"
  let ?h2 = "\<lparr>h_SampleCount = 3, h_SampleSum = 40, h_Bucket = ?b2\<rparr>"
  have a: "m_Histogram (histMetric 2 13 ?b1) = Some ?h1" by (simp add: histMetric_def)
  have b: "m_Histogram (histMetric 3 40 ?b2) = Some ?h2" by (simp add: histMetric_def)
  have c: "distinct (map b_UpperBound (h_Bucket ?h1))" by simp
  have d: "distinct (map b_UpperBound (h_Bucket ?h2))" by simp
  from histogram_merge [OF a b c d] obtain bs where
    "mergeMetrics HISTOGRAM (histMetric 2 13 ?b1) (histMetric 3 40 ?b2) =
       Some ((histMetric 2 13 ?b1)\<lparr>m_Histogram := Some
             \<lparr>h_SampleCount = h_SampleCount ?h1 + h_SampleCount ?h2,
              h_SampleSum = h_SampleSum ?h1 + h_SampleSum ?h2,
              h_Bucket = bs\<rparr>\<rparr>)" by blast
  then show ?thesis
    by (simp add: histMetric_def plainMetric_def mergeBuckets_def)
qed

section \<open>Sanitizing is idempotent\<close>

lemma update_fresh: "k \<notin> fst ` set al \<Longrightarrow> AList.update k v al = al @ [(k, v)]"
  by (induction al) auto

lemma refill_append:
  "distinct (map fst (acc @ gl)) \<Longrightarrow> refill gl acc = acc @ gl"
proof (induction gl arbitrary: acc)
  case Nil
  then show ?case by (simp add: refill_def)
next
  case (Cons p gl)
  obtain k v where p: "p = (k, v)" by (cases p)
  have fresh: "k \<notin> fst ` set acc" using Cons.prems p by auto
  have d: "distinct (map fst ((acc @ [(k, v)]) @ gl))" using Cons.prems p by auto
  have "refill (p # gl) acc = refill gl (AList.update k v acc)"
    by (simp add: refill_def p)
  also have "\<dots> = refill gl (acc @ [(k, v)])" using fresh by (simp add: update_fresh)
  also have "\<dots> = (acc @ [(k, v)]) @ gl" by (rule Cons.IH [OF d])
  finally show ?case by (simp add: p)
qed

lemma appendMissing_eq:
  "appendMissing nyd has ls = ([], has \<or> InstanceLabel \<in> fst ` set nyd, ls @ map mkPair nyd)"
  by (induction nyd arbitrary: has ls) (auto simp: mkPair_def)

lemma scanLabels_step:
  "scanLabels nyd has seen (lp # rest) =
     (if AList.delete (lp_Name lp) nyd = [] \<and> (has \<or> lp_Name lp = InstanceLabel)
      then ([], True, seen @ overwrite nyd lp # rest, True)
      else scanLabels (AList.delete (lp_Name lp) nyd) (has \<or> lp_Name lp = InstanceLabel)
             (seen @ [overwrite nyd lp]) rest)"
proof (cases "map_of nyd (lp_Name lp)")
  case None
  then have "lp_Name lp \<notin> fst ` set nyd" by (simp add: map_of_eq_None_iff)
  then have "AList.delete (lp_Name lp) nyd = nyd" by simp
  then show ?thesis using None by (auto simp: overwrite_def Let_def)
next
  case (Some v)
  then show ?thesis by (auto simp: overwrite_def Let_def)
qed

lemma overwrite_Nil [simp]: "overwrite [] lp = lp"
  by (simp add: overwrite_def)

lemma overwrite_Name [simp]: "lp_Name (overwrite gl lp) = lp_Name lp"
  by (simp add: overwrite_def split: option.split)

lemma overwrite_delete:
  "lp_Name r \<noteq> k \<Longrightarrow> overwrite (AList.delete k nyd) r = overwrite nyd r"
  by (simp add: overwrite_def)

lemma map_overwrite_delete:
  "k \<notin> lp_Name ` set rest \<Longrightarrow> map (overwrite (AList.delete k nyd)) rest = map (overwrite nyd) rest"
  by (induction rest) (auto simp: overwrite_delete)

lemma filter_delete:
  "filter (\<lambda>p. fst p \<notin> insert k S) nyd = filter (\<lambda>p. fst p \<notin> S) (AList.delete k nyd)"
  by (induction nyd) (auto simp: AList.delete_eq)

lemma scanLabels_result:
  assumes "distinct (map lp_Name rest)"
  shows "\<exists>c. scanLabels nyd has seen rest =
           (filter (\<lambda>p. fst p \<notin> lp_Name ` set rest) nyd,
            has \<or> InstanceLabel \<in> lp_Name ` set rest,
            seen @ map (overwrite nyd) rest, c) \<and>
         (c \<longrightarrow> filter (\<lambda>p. fst p \<notin> lp_Name ` set rest) nyd = [] \<and>
                (has \<or> InstanceLabel \<in> lp_Name ` set rest))"
  using assms
proof (induction rest arbitrary: nyd has seen)
  case Nil
  have "scanLabels nyd has seen [] = (nyd, has, seen, False)" by simp
  then show ?case by auto
next
  case (Cons lp rest)
  let ?k = "lp_Name lp"
  let ?D = "AList.delete ?k nyd"
  let ?has = "has \<or> ?k = InstanceLabel"
  have fresh: "?k \<notin> lp_Name ` set rest" using Cons.prems by auto
  have d: "distinct (map lp_Name rest)" using Cons.prems by simp
  have F1: "filter (\<lambda>p. fst p \<notin> lp_Name ` set (lp # rest)) nyd =
            filter (\<lambda>p. fst p \<notin> lp_Name ` set rest) ?D"
    using filter_delete [of ?k "lp_Name ` set rest" nyd] by simp
  have F2: "map (overwrite ?D) rest = map (overwrite nyd) rest"
    using fresh by (rule map_overwrite_delete)
  have H: "(has \<or> InstanceLabel \<in> lp_Name ` set (lp # rest)) =
           (?has \<or> InstanceLabel \<in> lp_Name ` set rest)"
    by auto
  show ?case
  proof (cases "?D = [] \<and> ?has")
    case True
    then have F2': "map (overwrite nyd) rest = rest" using F2 by (simp add: map_idI)
    have "scanLabels nyd has seen (lp # rest) = ([], True, seen @ overwrite nyd lp # rest, True)"
      using True by (subst scanLabels_step) simp
    moreover have "filter (\<lambda>p. fst p \<notin> lp_Name ` set (lp # rest)) nyd = []"
      using True F1 by simp
    moreover have "has \<or> InstanceLabel \<in> lp_Name ` set (lp # rest)"
      using True H by blast
    ultimately show ?thesis using F2' by (intro exI [of _ True]) (simp del: scanLabels.simps)
  next
    case False
    from Cons.IH [OF d, of ?D ?has "seen @ [overwrite nyd lp]"]
    obtain c where c: "scanLabels ?D ?has (seen @ [overwrite nyd lp]) rest =
           (filter (\<lambda>p. fst p \<notin> lp_Name ` set rest) ?D,
            ?has \<or> InstanceLabel \<in> lp_Name ` set rest,
            (seen @ [overwrite nyd lp]) @ map (overwrite ?D) rest, c)"
      and c': "c \<longrightarrow> filter (\<lambda>p. fst p \<notin> lp_Name ` set rest) ?D = [] \<and>
                (?has \<or> InstanceLabel \<in> lp_Name ` set rest)"
      by blast
    have "scanLabels nyd has seen (lp # rest) = scanLabels ?D ?has (seen @ [overwrite nyd lp]) rest"
      by (subst scanLabels_step) (simp only: False if_False)
    then have "scanLabels nyd has seen (lp # rest) =
           (filter (\<lambda>p. fst p \<notin> lp_Name ` set (lp # rest)) nyd,
            has \<or> InstanceLabel \<in> lp_Name ` set (lp # rest),
            seen @ map (overwrite nyd) (lp # rest), c)"
      using c F1 F2 H by (simp del: scanLabels.simps)
    moreover have "c \<longrightarrow> filter (\<lambda>p. fst p \<notin> lp_Name ` set (lp # rest)) nyd = [] \<and>
                (has \<or> InstanceLabel \<in> lp_Name ` set (lp # rest))"
      using c' F1 H by simp
    ultimately show ?thesis by blast
  qed
qed

lemma sanitizeMetric_eq:
  assumes "distinct (map fst gl)" and "distinct (map lp_Name (m_Label m))"
  shows "sanitizeMetric gl [] m = ([], m\<lparr>m_Label := sort_key lp_Name (sanitized gl (m_Label m))\<rparr>)"
proof -
  let ?ls = "m_Label m"
  let ?nyd = "filter (\<lambda>p. fst p \<notin> lp_Name ` set ?ls) gl"
  let ?has = "InstanceLabel \<in> lp_Name ` set ?ls"
  have r: "refill gl [] = gl" using refill_append [of "[]" gl] assms(1) by simp
  from scanLabels_result [OF assms(2), of gl False "[]"]
  obtain c where c: "scanLabels gl False [] ?ls = (?nyd, ?has, map (overwrite gl) ?ls, c)"
    and c': "c \<longrightarrow> ?nyd = [] \<and> ?has"
    by auto
  have keys: "InstanceLabel \<in> fst ` set ?nyd \<longleftrightarrow> InstanceLabel \<in> fst ` set gl \<and> \<not> ?has"
    by auto
  show ?thesis
  proof (cases c)
    case True
    then have "?nyd = []" and "?has" using c' by auto
    then show ?thesis using c True r
      by (simp add: sanitizeMetric_def sanitized_def)
  next
    case False
    then show ?thesis using c r keys
      by (auto simp: sanitizeMetric_def sanitized_def appendMissing_eq)
  qed
qed

lemma names_sanitized:
  "map lp_Name (sanitized gl ls) =
     map lp_Name ls @ map fst (filter (\<lambda>p. fst p \<notin> lp_Name ` set ls) gl) @
     (if InstanceLabel \<in> lp_Name ` set ls \<or> InstanceLabel \<in> fst ` set gl then []
      else [InstanceLabel])"
  by (simp add: sanitized_def comp_def mkPair_def)

lemma distinct_sanitized:
  assumes "distinct (map fst gl)" and "distinct (map lp_Name ls)"
  shows "distinct (map lp_Name (sanitized gl ls))"
proof -
  have "distinct (map fst (filter (\<lambda>p. fst p \<notin> lp_Name ` set ls) gl))"
    using assms(1) by (rule distinct_map_filter)
  then show ?thesis
    unfolding names_sanitized using assms(2) by (auto simp: image_iff)
qed

lemma covered_sanitized:
  "fst ` set gl \<subseteq> lp_Name ` set (sanitized gl ls) \<and>
   InstanceLabel \<in> lp_Name ` set (sanitized gl ls)"
proof -
  have "set (map lp_Name (sanitized gl ls)) =
      lp_Name ` set ls \<union> (fst ` set gl - lp_Name ` set ls) \<union>
      (if InstanceLabel \<in> lp_Name ` set ls \<or> InstanceLabel \<in> fst ` set gl then {}
       else {InstanceLabel})"
    unfolding names_sanitized by auto
  then have "lp_Name ` set (sanitized gl ls) =
      lp_Name ` set ls \<union> (fst ` set gl - lp_Name ` set ls) \<union>
      (if InstanceLabel \<in> lp_Name ` set ls \<or> InstanceLabel \<in> fst ` set gl then {}
       else {InstanceLabel})"
    by simp
  then show ?thesis by (auto split: if_splits)
qed

lemma overwrite_idem: "overwrite gl (overwrite gl l) = overwrite gl l"
  by (simp add: overwrite_def split: option.split)

lemma overwrite_fixed:
  assumes "distinct (map fst gl)" and "p \<in> set (sanitized gl ls)"
  shows "overwrite gl p = p"
proof -
  consider (old) l where "l \<in> set ls" "p = overwrite gl l"
    | (new) kv where "kv \<in> set gl" "p = mkPair kv"
    | (inst) "InstanceLabel \<notin> fst ` set gl" "p = \<lparr>lp_Name = InstanceLabel, lp_Value = []\<rparr>"
    using assms(2) by (auto simp: sanitized_def split: if_splits)
  then show ?thesis
  proof cases
    case old
    then show ?thesis by (simp add: overwrite_idem)
  next
    case new
    then have "map_of gl (fst kv) = Some (snd kv)" using assms(1) by simp
    then show ?thesis using new by (simp add: overwrite_def mkPair_def)
  next
    case inst
    then have "map_of gl InstanceLabel = None" by (simp add: map_of_eq_None_iff)
    then show ?thesis using inst by (simp add: overwrite_def)
  qed
qed

lemma set_sanitized:
  "set (sanitized gl ls) =
     overwrite gl ` set ls \<union>
     mkPair ` set (filter (\<lambda>p. fst p \<notin> lp_Name ` set ls) gl) \<union>
     set (if InstanceLabel \<in> lp_Name ` set ls \<or> InstanceLabel \<in> fst ` set gl then []
          else [\<lparr>lp_Name = InstanceLabel, lp_Value = []\<rparr>])"
  unfolding sanitized_def by (simp only: set_append set_map Un_assoc)

lemma grouping_pair_in_sanitized:
  assumes "distinct (map fst gl)" and "(k, v) \<in> set gl"
  shows "\<lparr>lp_Name = k, lp_Value = v\<rparr> \<in> set (sanitized gl ls)"
proof (cases "k \<in> lp_Name ` set ls")
  case True
  then obtain l where l: "l \<in> set ls" "lp_Name l = k" by auto
  have "map_of gl k = Some v" using assms by simp
  then have "overwrite gl l = \<lparr>lp_Name = k, lp_Value = v\<rparr>"
    using l(2) by (cases l) (simp add: overwrite_def)
  moreover have "overwrite gl l \<in> overwrite gl ` set ls" using l(1) by (rule imageI)
  ultimately have "\<lparr>lp_Name = k, lp_Value = v\<rparr> \<in> overwrite gl ` set ls" by simp
  then show ?thesis unfolding set_sanitized by blast
next
  case False
  then have "(k, v) \<in> set (filter (\<lambda>p. fst p \<notin> lp_Name ` set ls) gl)" using assms(2) by simp
  then have "mkPair (k, v) \<in> mkPair ` set (filter (\<lambda>p. fst p \<notin> lp_Name ` set ls) gl)"
    by (rule imageI)
  moreover have "mkPair (k, v) = \<lparr>lp_Name = k, lp_Value = v\<rparr>" by (simp add: mkPair_def)
  ultimately have "\<lparr>lp_Name = k, lp_Value = v\<rparr> \<in>
      mkPair ` set (filter (\<lambda>p. fst p \<notin> lp_Name ` set ls) gl)" by simp
  then show ?thesis unfolding set_sanitized by blast
qed

lemma sanitized_sorted_fixed:
  assumes "distinct (map fst gl)"
  shows "sort_key lp_Name (sanitized gl (sort_key lp_Name (sanitized gl ls))) =
         sort_key lp_Name (sanitized gl ls)"
proof -
  define P where "P = sort_key lp_Name (sanitized gl ls)"
  have setP: "set P = set (sanitized gl ls)" by (simp add: P_def)
  have m: "map (overwrite gl) P = P"
  proof (rule map_idI)
    fix p assume "p \<in> set P"
    then have "p \<in> set (sanitized gl ls)" using setP by simp
    with assms show "overwrite gl p = p" by (rule overwrite_fixed)
  qed
  have cov: "fst ` set gl \<subseteq> lp_Name ` set P" "InstanceLabel \<in> lp_Name ` set P"
    using covered_sanitized [of gl ls] setP by simp_all
  have "\<forall>p \<in> set gl. \<not> fst p \<notin> lp_Name ` set P" using cov(1) by blast
  then have f: "filter (\<lambda>p. fst p \<notin> lp_Name ` set P) gl = []"
    by (simp only: filter_empty_conv)
  have "sanitized gl P = map (overwrite gl) P @
     map mkPair (filter (\<lambda>p. fst p \<notin> lp_Name ` set P) gl) @
     (if InstanceLabel \<in> lp_Name ` set P \<or> InstanceLabel \<in> fst ` set gl then []
      else [\<lparr>lp_Name = InstanceLabel, lp_Value = []\<rparr>])"
    by (rule sanitized_def)
  also have "\<dots> = P" using cov(2) by (simp only: m f) simp
  finally have "sanitized gl P = P" .
  moreover have "sorted (map lp_Name P)" by (simp add: P_def)
  then have "sort_key lp_Name P = P" by (rule sort_key_id_if_sorted)
  ultimately show ?thesis by (simp add: P_def)
qed

lemma distinct_sorted_sanitized:
  assumes "distinct (map fst gl)" and "distinct (map lp_Name ls)"
  shows "distinct (map lp_Name (sort_key lp_Name (sanitized gl ls)))"
proof -
  have "mset (map lp_Name (sort_key lp_Name (sanitized gl ls))) = mset (map lp_Name (sanitized gl ls))"
    by simp
  then show ?thesis
    using distinct_sanitized [OF assms] by (metis mset_eq_imp_distinct_iff)
qed

lemma sanitizeMetrics_eq:
  assumes "distinct (map fst gl)"
    and "\<forall>m \<in> set ms. distinct (map lp_Name (m_Label m))"
  shows "sanitizeMetrics gl [] ms =
         map (\<lambda>m. m\<lparr>m_Label := sort_key lp_Name (sanitized gl (m_Label m))\<rparr>) ms"
  using assms(2)
  by (induction ms) (simp_all add: sanitizeMetric_eq [OF assms(1)])

text \<open>
  C9.  For every metric family whose metrics have pairwise distinct label names and every
  grouping label map, sanitizing a second time changes nothing.  After the first
  application every metric is sorted by label name, has the instance label, and has every
  grouping label with the value the group gives it.
\<close>

theorem SanitizeLabels_idempotent:
  assumes "distinct (map fst L)"
    and "\<forall>m \<in> set (mf_Metric f). distinct (map lp_Name (m_Label m))"
  shows "SanitizeLabels (SanitizeLabels f L) L = SanitizeLabels f L \<and>
         (\<forall>m \<in> set (mf_Metric (SanitizeLabels f L)).
            sorted (map lp_Name (m_Label m)) \<and>
            InstanceLabel \<in> lp_Name ` set (m_Label m) \<and>
            (\<forall>(k, v) \<in> set L. \<lparr>lp_Name = k, lp_Value = v\<rparr> \<in> set (m_Label m)))"
proof -
  let ?S = "\<lambda>m. m\<lparr>m_Label := sort_key lp_Name (sanitized L (m_Label m))\<rparr>"
  have one: "mf_Metric (SanitizeLabels f L) = map ?S (mf_Metric f)"
    using sanitizeMetrics_eq [OF assms] by (simp add: SanitizeLabels_def)
  have d: "\<forall>m \<in> set (map ?S (mf_Metric f)). distinct (map lp_Name (m_Label m))"
    using assms by (auto simp: distinct_sorted_sanitized)
  have two: "sanitizeMetrics L [] (map ?S (mf_Metric f)) = map ?S (map ?S (mf_Metric f))"
    by (rule sanitizeMetrics_eq [OF assms(1) d])
  have "map ?S (map ?S (mf_Metric f)) = map ?S (mf_Metric f)"
    using sanitized_sorted_fixed [OF assms(1)] by simp
  then have idem: "SanitizeLabels (SanitizeLabels f L) L = SanitizeLabels f L"
    using one two by (simp add: SanitizeLabels_def)
  have props: "sorted (map lp_Name (m_Label m)) \<and>
            InstanceLabel \<in> lp_Name ` set (m_Label m) \<and>
            (\<forall>(k, v) \<in> set L. \<lparr>lp_Name = k, lp_Value = v\<rparr> \<in> set (m_Label m))"
    if "m \<in> set (mf_Metric (SanitizeLabels f L))" for m
  proof -
    from that one obtain m0 where m: "m = ?S m0" by auto
    have "sorted (map lp_Name (m_Label m))" using m by simp
    moreover have "InstanceLabel \<in> lp_Name ` set (m_Label m)"
      using m covered_sanitized [of L "m_Label m0"] by simp
    moreover have "\<forall>(k, v) \<in> set L. \<lparr>lp_Name = k, lp_Value = v\<rparr> \<in> set (m_Label m)"
      using m grouping_pair_in_sanitized [OF assms(1)] by auto
    ultimately show ?thesis by blast
  qed
  show ?thesis using idem props by blast
qed

theorem SanitizeLabels_idempotent_witness:
  "SanitizeLabels (SanitizeLabels
      (fooFamily GAUGE (plainMetric\<lparr>m_Label :=
         [\<lparr>lp_Name = ''zone'', lp_Value = ''a''\<rparr>, \<lparr>lp_Name = ''job'', lp_Value = ''old''\<rparr>],
         m_Gauge := Some 1\<rparr>)) [(''job'', ''t'')]) [(''job'', ''t'')] =
   fooFamily GAUGE (plainMetric\<lparr>m_Label :=
     [\<lparr>lp_Name = ''instance'', lp_Value = []\<rparr>, \<lparr>lp_Name = ''job'', lp_Value = ''t''\<rparr>,
      \<lparr>lp_Name = ''zone'', lp_Value = ''a''\<rparr>], m_Gauge := Some 1\<rparr>)"
proof -
  let ?f = "fooFamily GAUGE (plainMetric\<lparr>m_Label :=
         [\<lparr>lp_Name = ''zone'', lp_Value = ''a''\<rparr>, \<lparr>lp_Name = ''job'', lp_Value = ''old''\<rparr>],
         m_Gauge := Some 1\<rparr>)"
  have a: "distinct (map fst [(''job'', ''t'')])" by simp
  have b: "\<forall>m \<in> set (mf_Metric ?f). distinct (map lp_Name (m_Label m))"
    by (simp add: ex_defs)
  have c: "SanitizeLabels ?f [(''job'', ''t'')] =
     fooFamily GAUGE (plainMetric\<lparr>m_Label :=
     [\<lparr>lp_Name = ''instance'', lp_Value = []\<rparr>, \<lparr>lp_Name = ''job'', lp_Value = ''t''\<rparr>,
      \<lparr>lp_Name = ''zone'', lp_Value = ''a''\<rparr>], m_Gauge := Some 1\<rparr>)"
    by (simp add: eval_defs ex_defs)
  from SanitizeLabels_idempotent [OF a b] have
    "SanitizeLabels (SanitizeLabels ?f [(''job'', ''t'')]) [(''job'', ''t'')] =
     SanitizeLabels ?f [(''job'', ''t'')]" by (rule conjunct1)
  then show ?thesis by (simp only: c)
qed

section \<open>The base64 job name\<close>

text \<open>
  C4.  The claim says that the base64 variants of the push and delete handlers submit the
  decoded job name.  The code does not: whenever one of them submits a request, the
  grouping label \<open>job\<close> of that request is the job parameter as it stands in the path,
  still encoded, whatever the decoder returns.  What the claim says of a failing decode
  holds: the handler answers 400 and submits nothing.  The label values that
  \<open>SplitLabels\<close> decodes are stored decoded, as the evaluation below shows for \<open>key0\<close>.
\<close>

theorem base64_job_label_is_raw:
  "(Push decodeString True unchecked replace job labelsString parsed now errCh = Submitted wr \<longrightarrow>
      map_of (wr_Labels wr) ''job'' = Some job) \<and>
   (Delete decodeString True job labelsString now = Submitted wr \<longrightarrow>
      map_of (wr_Labels wr) ''job'' = Some job) \<and>
   (DecodeBase64 decodeString job = None \<longrightarrow>
      Push decodeString True unchecked replace job labelsString parsed now errCh = BadRequest \<and>
      Delete decodeString True job labelsString now = BadRequest)"
  by (auto simp: Push_def Delete_def update_conv' split: option.splits sum.splits if_splits)

theorem base64_job_label_is_raw_witness:
  "DecodeBase64 exampleDecoder ''dGVzdA'' = Some ''test'' \<and>
   Push exampleDecoder True False False ''dGVzdA'' ''/key0@base64/dmFsMA'' (Some []) 0 1 =
     Submitted \<lparr>wr_Labels = [(''key0'', ''val0''), (''job'', ''dGVzdA'')], wr_Timestamp = 0,
       wr_MetricFamilies = Some [], wr_Replace = False, wr_Done = Some 1\<rparr> \<and>
   Delete exampleDecoder True ''dGVzdA'' [] 0 =
     Submitted \<lparr>wr_Labels = [(''job'', ''dGVzdA'')], wr_Timestamp = 0,
       wr_MetricFamilies = None, wr_Replace = False, wr_Done = None\<rparr>"
proof -
  have p: "Push exampleDecoder True False False ''dGVzdA'' ''/key0@base64/dmFsMA'' (Some []) 0 1 =
     Submitted \<lparr>wr_Labels = [(''key0'', ''val0''), (''job'', ''dGVzdA'')], wr_Timestamp = 0,
       wr_MetricFamilies = Some [], wr_Replace = False, wr_Done = Some 1\<rparr>"
    by (simp add: Push_def DecodeBase64_def TrimRight_def exampleDecoder_def SplitLabels_def
        HasPrefix_def TrimSuffix_def Base64JobSuffix_def LabelNameRE_def labelStart_def
        ReservedLabelPrefix_def Let_def)
  have d: "Delete exampleDecoder True ''dGVzdA'' [] 0 =
     Submitted \<lparr>wr_Labels = [(''job'', ''dGVzdA'')], wr_Timestamp = 0,
       wr_MetricFamilies = None, wr_Replace = False, wr_Done = None\<rparr>"
    by (simp add: Delete_def DecodeBase64_def TrimRight_def exampleDecoder_def SplitLabels_def)
  have e: "DecodeBase64 exampleDecoder ''dGVzdA'' = Some ''test''"
    by (simp add: DecodeBase64_def TrimRight_def exampleDecoder_def)
  from base64_job_label_is_raw [of exampleDecoder False False "''dGVzdA''" "''/key0@base64/dmFsMA''"
      "Some []" 0 1] p d e
  show ?thesis by simp
qed

section \<open>A failing request without a done channel\<close>

text \<open>
  When the validator fails for a request without a done channel, the worker still
  executes the send of the error: on the nil channel, where a send blocks for ever.  The
  store is as it was, and no later request of the queue is taken.
\<close>

theorem worker_blocks_on_nil_done:
  "validateConsistency sep gatherOk ms wr = Some (Some err, wr') \<and> wr_Done wr = None \<longrightarrow>
     loop sep gatherOk ms tr (wr # q) =
       \<lparr>w_storage = ms, w_trace = tr @ [SendOnNil err], w_status = BlockedForever\<rparr>"
  by (auto dest: validateConsistency_Done)

theorem worker_blocks_on_nil_done_witness:
  "loop (CHR 0xFF) (\<lambda>fs. True) [] []
     [pushFoo COUNTER (plainMetric\<lparr>m_Counter := Some 2, m_TimestampMs := Some 7\<rparr>) None,
      pushFoo COUNTER (plainMetric\<lparr>m_Counter := Some 5\<rparr>) None] =
   \<lparr>w_storage = [], w_trace = [SendOnNil TimestampForbidden], w_status = BlockedForever\<rparr>"
proof -
  let ?wr = "pushFoo COUNTER (plainMetric\<lparr>m_Counter := Some 2, m_TimestampMs := Some 7\<rparr>) None"
  have v: "validateConsistency (CHR 0xFF) (\<lambda>fs. True) [] ?wr = Some (Some TimestampForbidden, ?wr)"
    by (simp add: eval_defs ex_defs)
  have d: "wr_Done ?wr = None" by (simp add: pushFoo_def)
  from worker_blocks_on_nil_done [of "CHR 0xFF" "\<lambda>fs. True" "[]" ?wr TimestampForbidden ?wr "[]"
      "[pushFoo COUNTER (plainMetric\<lparr>m_Counter := Some 5\<rparr>) None]"] v d
  show ?thesis by (simp del: loop.simps)
qed

end
